theory Spec2Isabelle
  imports Complex_Main "HOL-Library.AList"
begin

section \<open>Data model shared by the game (chess.js) and the search worker\<close>

text \<open>
  A board cell holds \<open>null\<close> or one of the twelve piece letters; the letter's case is the
  colour (\<open>getPieceColor\<close>: upper case is white) and \<open>toLowerCase\<close> gives the kind.
  The board is the array of eight rows of eight cells; row 0 is black's back rank.
  Coordinates are JavaScript numbers that the code offsets below zero before testing them
  with \<open>isValidSquare\<close>, hence \<open>int\<close>.  \<open>cell\<close> reads \<open>board[row][col]\<close> and
  \<open>setCell\<close> is the assignment to it.  Every square the generators below produce has
  passed \<open>isValidSquare\<close> (or lies on the mover's own row or start row), so an access off
  the board is outside the code paths modelled here: \<open>cell\<close> reads it as empty and
  \<open>setCell\<close> writes nothing.
\<close>

datatype color = White | Black

datatype kind = Pawn | Knight | Bishop | Rook | Queen | King

type_synonym piece = "color \<times> kind"

type_synonym square = "int \<times> int"

type_synonym board = "piece option list list"

fun nthI :: "'a list \<Rightarrow> int \<Rightarrow> 'a option" where
  "nthI [] i = None"
| "nthI (x # xs) i = (if i = 0 then Some x else nthI xs (i - 1))"

fun updI :: "'a list \<Rightarrow> int \<Rightarrow> 'a \<Rightarrow> 'a list" where
  "updI [] i v = []"
| "updI (x # xs) i v = (if i = 0 then v # xs else x # updI xs (i - 1) v)"

definition cell :: "board \<Rightarrow> square \<Rightarrow> piece option" where
  "cell b s =
     (case nthI b (fst s) of
        None \<Rightarrow> None
      | Some row \<Rightarrow> (case nthI row (snd s) of None \<Rightarrow> None | Some x \<Rightarrow> x))"

definition setCell :: "board \<Rightarrow> square \<Rightarrow> piece option \<Rightarrow> board" where
  "setCell b s v =
     (case nthI b (fst s) of
        None \<Rightarrow> b
      | Some row \<Rightarrow> updI b (fst s) (updI row (snd s) v))"

definition getPieceColor :: "piece \<Rightarrow> color" where
  "getPieceColor p = fst p"

definition opponent :: "color \<Rightarrow> color" where
  "opponent c = (if c = White then Black else White)"

definition isValidSquare :: "int \<Rightarrow> int \<Rightarrow> bool" where
  "isValidSquare row col = (row \<ge> 0 \<and> row < 8 \<and> col \<ge> 0 \<and> col < 8)"

record castlingSide =
  kingside :: bool
  queenside :: bool

record castling =
  white :: castlingSide
  black :: castlingSide

definition rightsOf :: "castling \<Rightarrow> color \<Rightarrow> castlingSide" where
  "rightsOf cr c = (if c = White then white cr else black cr)"

definition setRights :: "castling \<Rightarrow> color \<Rightarrow> castlingSide \<Rightarrow> castling" where
  "setRights cr c s = (if c = White then cr\<lparr>white := s\<rparr> else cr\<lparr>black := s\<rparr>)"

text \<open>The settings bundle of one search request.  JavaScript numbers are modelled by the
  reals (no rounding error).\<close>

record settings =
  searchDepth :: int
  mistakeRate :: real
  mistakeSizeCp :: int
  timePerMove :: int
  maxNodes :: int
  positionWeight :: real
  mobilityWeight :: real
  pawnStructureWeight :: real
  kingSafetyWeight :: real
  temperature :: real
  softmaxWindow :: int
  useQuiescence :: bool

text \<open>The shape of every board the game and the worker hold: eight rows of eight cells.\<close>

definition wfBoard :: "board \<Rightarrow> bool" where
  "wfBoard b = (length b = 8 \<and> list_all (\<lambda>row. length row = 8) b)"

definition onBoard :: "board \<Rightarrow> square \<Rightarrow> bool" where
  "onBoard b s =
     (case nthI b (fst s) of None \<Rightarrow> False | Some row \<Rightarrow> nthI row (snd s) \<noteq> None)"

section \<open>Move generation and check detection (worker, and identically chess.js)\<close>

definition idx8 :: "int list" where
  "idx8 = [0, 1, 2, 3, 4, 5, 6, 7]"

text \<open>The squares in the order of the nested \<open>for row / for col\<close> loops.\<close>

definition allSquares :: "square list" where
  "allSquares = concat (map (\<lambda>r. map (\<lambda>c. (r, c)) idx8) idx8)"

text \<open>
  \<open>getPawnMoves\<close>: callers pass the square of a pawn.  The double step reads
  \<open>board[row + 2 * direction]\<close> without a bounds test, guarded by \<open>row === startRow\<close>.
\<close>

definition getPawnMoves :: "board \<Rightarrow> square option \<Rightarrow> int \<Rightarrow> int \<Rightarrow> square list" where
  "getPawnMoves b ep row col =
     (case cell b (row, col) of
        None \<Rightarrow> []
      | Some piece \<Rightarrow>
          (let direction = (if piece = (White, Pawn) then - 1 else 1);
               startRow = (if piece = (White, Pawn) then 6 else 1);
               forward =
                 (if isValidSquare (row + direction) col \<and> cell b (row + direction, col) = None
                  then (row + direction, col) #
                    (if row = startRow \<and> cell b (row + 2 * direction, col) = None
                     then [(row + 2 * direction, col)] else [])
                  else []);
               captures = concat (map (\<lambda>colOffset.
                  (let newRow = row + direction; newCol = col + colOffset in
                   if isValidSquare newRow newCol then
                     (case cell b (newRow, newCol) of
                        None \<Rightarrow> []
                      | Some targetPiece \<Rightarrow>
                          if getPieceColor targetPiece \<noteq> getPieceColor piece
                          then [(newRow, newCol)] else []) @
                     (case ep of
                        None \<Rightarrow> []
                      | Some e \<Rightarrow>
                          if newRow = fst e \<and> newCol = snd e then [(newRow, newCol)] else [])
                   else [])) [- 1, 1])
           in forward @ captures))"

text \<open>Knight and king steps: every offset that stays on the board and does not land on an
  own piece.\<close>

definition stepMoves :: "board \<Rightarrow> int \<Rightarrow> int \<Rightarrow> (int \<times> int) list \<Rightarrow> square list" where
  "stepMoves b row col offsets =
     concat (map (\<lambda>(rowOffset, colOffset).
        (let newRow = row + rowOffset; newCol = col + colOffset in
         if isValidSquare newRow newCol then
           (case cell b (newRow, newCol) of
              None \<Rightarrow> [(newRow, newCol)]
            | Some targetPiece \<Rightarrow>
                if map_option getPieceColor (cell b (row, col)) \<noteq> Some (getPieceColor targetPiece)
                then [(newRow, newCol)] else [])
         else [])) offsets)"

definition getKnightMoves :: "board \<Rightarrow> int \<Rightarrow> int \<Rightarrow> square list" where
  "getKnightMoves b row col =
     stepMoves b row col
       [(- 2, - 1), (- 2, 1), (- 1, - 2), (- 1, 2), (1, - 2), (1, 2), (2, - 1), (2, 1)]"

text \<open>
  One ray of \<open>getSlidingMoves\<close>: the \<open>while (isValidSquare ...)\<close> loop.  A ray leaves the
  board after at most seven steps; the counter (started at 8) only makes the recursion
  structural.
\<close>

fun ray :: "nat \<Rightarrow> board \<Rightarrow> piece \<Rightarrow> int \<Rightarrow> int \<Rightarrow> int \<Rightarrow> int \<Rightarrow> square list" where
  "ray 0 b piece newRow newCol rowDir colDir = []"
| "ray (Suc n) b piece newRow newCol rowDir colDir =
     (if isValidSquare newRow newCol then
        (case cell b (newRow, newCol) of
           None \<Rightarrow> (newRow, newCol) # ray n b piece (newRow + rowDir) (newCol + colDir) rowDir colDir
         | Some targetPiece \<Rightarrow>
             if getPieceColor targetPiece \<noteq> getPieceColor piece then [(newRow, newCol)] else [])
      else [])"

definition getSlidingMoves :: "board \<Rightarrow> int \<Rightarrow> int \<Rightarrow> (int \<times> int) list \<Rightarrow> square list" where
  "getSlidingMoves b row col directions =
     (case cell b (row, col) of
        None \<Rightarrow> []
      | Some piece \<Rightarrow>
          concat (map (\<lambda>(rowDir, colDir). ray 8 b piece (row + rowDir) (col + colDir) rowDir colDir)
            directions))"

definition getBishopMoves :: "board \<Rightarrow> int \<Rightarrow> int \<Rightarrow> square list" where
  "getBishopMoves b row col = getSlidingMoves b row col [(- 1, - 1), (- 1, 1), (1, - 1), (1, 1)]"

definition getRookMoves :: "board \<Rightarrow> int \<Rightarrow> int \<Rightarrow> square list" where
  "getRookMoves b row col = getSlidingMoves b row col [(- 1, 0), (1, 0), (0, - 1), (0, 1)]"

definition getQueenMoves :: "board \<Rightarrow> int \<Rightarrow> int \<Rightarrow> square list" where
  "getQueenMoves b row col =
     getSlidingMoves b row col
       [(- 1, - 1), (- 1, 0), (- 1, 1), (0, - 1), (0, 1), (1, - 1), (1, 0), (1, 1)]"

text \<open>
  \<open>getKingMoves\<close> asks \<open>isSquareUnderAttack\<close> about the castling squares, and
  \<open>isSquareUnderAttack\<close> calls \<open>getRawMoves\<close>, which calls \<open>getKingMoves\<close> for a king
  of the other colour: a recursion with nothing that decreases.  It is cut by the
  \<open>&&\<close> chain (no right, or an occupied square in between) and by the early
  \<open>return true\<close>; where it is not, the JavaScript call stack overflows (RangeError).
  The model gives the functions the remaining stack depth; \<open>None\<close> is the overflow.
  \<open>attacked\<close> is the recursive call of \<open>isSquareUnderAttack\<close> one level down.
\<close>

definition castleClear :: "(int \<Rightarrow> int \<Rightarrow> color \<Rightarrow> bool option) \<Rightarrow> int \<Rightarrow> color \<Rightarrow> int list \<Rightarrow> bool option" where
  "castleClear attacked row c cols =
     foldl (\<lambda>acc col.
        (case acc of
           None \<Rightarrow> None
         | Some False \<Rightarrow> Some False
         | Some True \<Rightarrow> map_option Not (attacked row col c))) (Some True) cols"

definition getKingMovesWith ::
  "(int \<Rightarrow> int \<Rightarrow> color \<Rightarrow> bool option) \<Rightarrow> board \<Rightarrow> castling \<Rightarrow> int \<Rightarrow> int \<Rightarrow> square list option" where
  "getKingMovesWith attacked b cr row col =
     (case cell b (row, col) of
        None \<Rightarrow> None
      | Some piece \<Rightarrow>
          (let moves = stepMoves b row col
                 [(- 1, - 1), (- 1, 0), (- 1, 1), (0, - 1), (0, 1), (1, - 1), (1, 0), (1, 1)];
               c = getPieceColor piece
           in
           (case (if kingside (rightsOf cr c) \<and> cell b (row, 5) = None \<and> cell b (row, 6) = None
                  then castleClear attacked row c [4, 5, 6] else Some False) of
              None \<Rightarrow> None
            | Some ks \<Rightarrow>
               (case (if queenside (rightsOf cr c) \<and> cell b (row, 1) = None \<and> cell b (row, 2) = None \<and>
                         cell b (row, 3) = None
                      then castleClear attacked row c [4, 3, 2] else Some False) of
                  None \<Rightarrow> None
                | Some qs \<Rightarrow>
                    Some (moves @ (if ks then [(row, 6)] else []) @ (if qs then [(row, 2)] else []))))))"

definition getRawMovesWith ::
  "(int \<Rightarrow> int \<Rightarrow> color \<Rightarrow> bool option) \<Rightarrow> board \<Rightarrow> castling \<Rightarrow> square option \<Rightarrow> int \<Rightarrow> int \<Rightarrow> square list option" where
  "getRawMovesWith attacked b cr ep row col =
     (case cell b (row, col) of
        None \<Rightarrow> Some []
      | Some piece \<Rightarrow>
          (case snd piece of
             Pawn \<Rightarrow> Some (getPawnMoves b ep row col)
           | Knight \<Rightarrow> Some (getKnightMoves b row col)
           | Bishop \<Rightarrow> Some (getBishopMoves b row col)
           | Rook \<Rightarrow> Some (getRookMoves b row col)
           | Queen \<Rightarrow> Some (getQueenMoves b row col)
           | King \<Rightarrow>
               map_option (filter (\<lambda>m. \<bar>snd m - col\<bar> \<le> 1))
                 (getKingMovesWith attacked b cr row col)))"

text \<open>
  The scan of \<open>isSquareUnderAttack\<close> over the squares still to visit.  \<open>row\<close> and
  \<open>col\<close> are \<open>None\<close> for JavaScript's \<open>undefined\<close>, which no move's coordinate
  equals (\<open>===\<close>).
\<close>

fun attackScan ::
  "(int \<Rightarrow> int \<Rightarrow> square list option) \<Rightarrow> board \<Rightarrow> int option \<Rightarrow> int option \<Rightarrow> color \<Rightarrow> square list \<Rightarrow> bool option" where
  "attackScan raw b row col defenderColor [] = Some False"
| "attackScan raw b row col defenderColor (s # ss) =
     (case cell b s of
        None \<Rightarrow> attackScan raw b row col defenderColor ss
      | Some piece \<Rightarrow>
          if getPieceColor piece \<noteq> defenderColor then
            (case raw (fst s) (snd s) of
               None \<Rightarrow> None
             | Some moves \<Rightarrow>
                 if list_ex (\<lambda>m. Some (fst m) = row \<and> Some (snd m) = col) moves then Some True
                 else attackScan raw b row col defenderColor ss)
          else attackScan raw b row col defenderColor ss)"

fun isSquareUnderAttack ::
  "nat \<Rightarrow> board \<Rightarrow> castling \<Rightarrow> square option \<Rightarrow> int option \<Rightarrow> int option \<Rightarrow> color \<Rightarrow> bool option" where
  "isSquareUnderAttack 0 b cr ep row col defenderColor = None"
| "isSquareUnderAttack (Suc k) b cr ep row col defenderColor =
     attackScan
       (getRawMovesWith (\<lambda>r c d. isSquareUnderAttack k b cr ep (Some r) (Some c) d) b cr ep)
       b row col defenderColor allSquares"

definition getKingMoves :: "nat \<Rightarrow> board \<Rightarrow> castling \<Rightarrow> square option \<Rightarrow> int \<Rightarrow> int \<Rightarrow> square list option" where
  "getKingMoves k b cr ep row col =
     getKingMovesWith (\<lambda>r c d. isSquareUnderAttack k b cr ep (Some r) (Some c) d) b cr row col"

definition getRawMoves :: "nat \<Rightarrow> board \<Rightarrow> castling \<Rightarrow> square option \<Rightarrow> int \<Rightarrow> int \<Rightarrow> square list option" where
  "getRawMoves k b cr ep row col =
     getRawMovesWith (\<lambda>r c d. isSquareUnderAttack k b cr ep (Some r) (Some c) d) b cr ep row col"

text \<open>
  The king search of \<open>isInCheck\<close>: the \<open>break\<close> leaves only the inner loop, so the scan
  keeps the first king of the last row that has one; with no king the coordinates stay
  \<open>undefined\<close>.
\<close>

definition findKing :: "board \<Rightarrow> color \<Rightarrow> square option" where
  "findKing b c =
     foldl (\<lambda>acc row.
        (case find (\<lambda>col. cell b (row, col) = Some (c, King)) idx8 of
           None \<Rightarrow> acc
         | Some col \<Rightarrow> Some (row, col))) None idx8"

definition isInCheck :: "nat \<Rightarrow> board \<Rightarrow> castling \<Rightarrow> square option \<Rightarrow> color \<Rightarrow> bool option" where
  "isInCheck k b cr ep c =
     (let king = findKing b c
      in isSquareUnderAttack k b cr ep (map_option fst king) (map_option snd king) c)"

text \<open>
  \<open>wouldBeInCheck\<close> writes the move into the board, tests, and writes the board back;
  the board it leaves is returned.  A call with an empty destination after the write
  (an empty origin) fails in \<open>getPieceColor\<close>.
\<close>

definition wouldBeInCheck ::
  "nat \<Rightarrow> castling \<Rightarrow> square option \<Rightarrow> board \<Rightarrow> square \<Rightarrow> square \<Rightarrow> (bool \<times> board) option" where
  "wouldBeInCheck k cr ep b src dst =
     (let originalPiece = cell b dst;
          b1 = setCell b dst (cell b src);
          b2 = setCell b1 src None
      in
      (case cell b2 dst of
         None \<Rightarrow> None
       | Some moved \<Rightarrow>
           (case isInCheck k b2 cr ep (getPieceColor moved) of
              None \<Rightarrow> None
            | Some inCheck \<Rightarrow>
                (let b3 = setCell b2 src (cell b2 dst);
                     b4 = setCell b3 dst originalPiece
                 in Some (inCheck, b4)))))"

text \<open>The \<open>filter\<close> of \<open>getValidMovesForPiece\<close>, its callback run move by move on the one
  board.\<close>

fun filterLegal ::
  "nat \<Rightarrow> castling \<Rightarrow> square option \<Rightarrow> board \<Rightarrow> square \<Rightarrow> square list \<Rightarrow> (square list \<times> board) option" where
  "filterLegal k cr ep b src [] = Some ([], b)"
| "filterLegal k cr ep b src (m # ms) =
     (case wouldBeInCheck k cr ep b src m of
        None \<Rightarrow> None
      | Some (inCheck, b') \<Rightarrow>
          (case filterLegal k cr ep b' src ms of
             None \<Rightarrow> None
           | Some (rest, b'') \<Rightarrow> Some (if inCheck then rest else m # rest, b'')))"

definition getValidMovesForPiece ::
  "nat \<Rightarrow> castling \<Rightarrow> square option \<Rightarrow> board \<Rightarrow> int \<Rightarrow> int \<Rightarrow> (square list \<times> board) option" where
  "getValidMovesForPiece k cr ep b row col =
     (case cell b (row, col) of
        None \<Rightarrow> Some ([], b)
      | Some piece \<Rightarrow>
          (case (case snd piece of
                   Pawn \<Rightarrow> Some (getPawnMoves b ep row col)
                 | Knight \<Rightarrow> Some (getKnightMoves b row col)
                 | Bishop \<Rightarrow> Some (getBishopMoves b row col)
                 | Rook \<Rightarrow> Some (getRookMoves b row col)
                 | Queen \<Rightarrow> Some (getQueenMoves b row col)
                 | King \<Rightarrow> getKingMoves k b cr ep row col) of
             None \<Rightarrow> None
           | Some moves \<Rightarrow> filterLegal k cr ep b (row, col) moves))"

text \<open>A move as the search holds it: \<open>{fromRow, fromCol, toRow, toCol}\<close>.\<close>

type_synonym move = "square \<times> square"

fun allValidLoop ::
  "nat \<Rightarrow> castling \<Rightarrow> square option \<Rightarrow> board \<Rightarrow> color \<Rightarrow> square list \<Rightarrow> (move list \<times> board) option" where
  "allValidLoop k cr ep b c [] = Some ([], b)"
| "allValidLoop k cr ep b c (s # ss) =
     (case cell b s of
        None \<Rightarrow> allValidLoop k cr ep b c ss
      | Some piece \<Rightarrow>
          if getPieceColor piece = c then
            (case getValidMovesForPiece k cr ep b (fst s) (snd s) of
               None \<Rightarrow> None
             | Some (pieceMoves, b') \<Rightarrow>
                 (case allValidLoop k cr ep b' c ss of
                    None \<Rightarrow> None
                  | Some (rest, b'') \<Rightarrow> Some (map (\<lambda>m. (s, m)) pieceMoves @ rest, b'')))
          else allValidLoop k cr ep b c ss)"

definition getAllValidMoves ::
  "nat \<Rightarrow> castling \<Rightarrow> square option \<Rightarrow> board \<Rightarrow> color \<Rightarrow> (move list \<times> board) option" where
  "getAllValidMoves k cr ep b c = allValidLoop k cr ep b c allSquares"

section \<open>Position key (getFEN) and repetition count\<close>

text \<open>Numbers appended to a string: the decimal digits.\<close>

function showNat :: "nat \<Rightarrow> string" where
  "showNat n =
     (if n < 10 then [char_of (48 + n)] else showNat (n div 10) @ [char_of (48 + n mod 10)])"
  by pat_completeness auto
termination
  by (relation "measure id") auto

definition showInt :: "int \<Rightarrow> string" where
  "showInt i = (if i < 0 then CHR ''-'' # showNat (nat (- i)) else showNat (nat i))"

fun pieceChar :: "piece \<Rightarrow> char" where
  "pieceChar (White, Pawn) = CHR ''P''"
| "pieceChar (White, Knight) = CHR ''N''"
| "pieceChar (White, Bishop) = CHR ''B''"
| "pieceChar (White, Rook) = CHR ''R''"
| "pieceChar (White, Queen) = CHR ''Q''"
| "pieceChar (White, King) = CHR ''K''"
| "pieceChar (Black, Pawn) = CHR ''p''"
| "pieceChar (Black, Knight) = CHR ''n''"
| "pieceChar (Black, Bishop) = CHR ''b''"
| "pieceChar (Black, Rook) = CHR ''r''"
| "pieceChar (Black, Queen) = CHR ''q''"
| "pieceChar (Black, King) = CHR ''k''"

text \<open>The inner loop of \<open>getFEN\<close> over the columns still to visit, with the run of empty
  cells counted so far.\<close>

fun fenCols :: "board \<Rightarrow> int \<Rightarrow> int list \<Rightarrow> nat \<Rightarrow> string" where
  "fenCols b row [] emptyCount = (if emptyCount > 0 then showNat emptyCount else [])"
| "fenCols b row (col # cols) emptyCount =
     (case cell b (row, col) of
        Some piece \<Rightarrow>
          (if emptyCount > 0 then showNat emptyCount else []) @ pieceChar piece # fenCols b row cols 0
      | None \<Rightarrow> fenCols b row cols (Suc emptyCount))"

definition fenBoard :: "board \<Rightarrow> string" where
  "fenBoard b =
     concat (map (\<lambda>row. fenCols b row idx8 0 @ (if row < 7 then ''/'' else [])) idx8)"

definition fenCastling :: "castling \<Rightarrow> string" where
  "fenCastling cr =
     (let castlingStr =
        (if kingside (white cr) then ''K'' else []) @
        (if queenside (white cr) then ''Q'' else []) @
        (if kingside (black cr) then ''k'' else []) @
        (if queenside (black cr) then ''q'' else [])
      in if castlingStr = [] then ''-'' else castlingStr)"

text \<open>\<open>String.fromCharCode(97 + col)\<close> is one character; the file letters a..h for the
  columns 0..7.\<close>

definition fenEnPassant :: "square option \<Rightarrow> string" where
  "fenEnPassant ep =
     (case ep of
        Some e \<Rightarrow> char_of (97 + snd e) # showInt (8 - fst e)
      | None \<Rightarrow> ''-'')"

definition getFEN :: "board \<Rightarrow> color \<Rightarrow> castling \<Rightarrow> square option \<Rightarrow> string" where
  "getFEN b turn cr ep =
     fenBoard b @ '' '' @ (if turn = White then ''w'' else ''b'') @ '' '' @ fenCastling cr @
     '' '' @ fenEnPassant ep"

text \<open>\<open>fen.split(' ')[0]\<close>: the text before the first blank.\<close>

definition firstField :: "string \<Rightarrow> string" where
  "firstField fen = takeWhile (\<lambda>ch. ch \<noteq> CHR '' '') fen"

definition countRepetitions ::
  "board \<Rightarrow> color \<Rightarrow> castling \<Rightarrow> square option \<Rightarrow> string list \<Rightarrow> nat" where
  "countRepetitions b turn cr ep history =
     (let currentFEN = firstField (getFEN b turn cr ep)
      in length (filter (\<lambda>fen. firstField fen = currentFEN) history))"

section \<open>Worker state\<close>

text \<open>
  Scores are JavaScript numbers including the two infinities the search starts its
  bounds from; the finite ones are modelled by the reals.
\<close>

datatype num = NegInf | Fin real | PosInf

fun numLess :: "num \<Rightarrow> num \<Rightarrow> bool" where
  "numLess PosInf y = False"
| "numLess x NegInf = False"
| "numLess NegInf y = True"
| "numLess x PosInf = True"
| "numLess (Fin x) (Fin y) = (x < y)"

definition numMax :: "num \<Rightarrow> num \<Rightarrow> num" where
  "numMax x y = (if numLess x y then y else x)"

definition numMin :: "num \<Rightarrow> num \<Rightarrow> num" where
  "numMin x y = (if numLess y x then y else x)"

fun numNeg :: "num \<Rightarrow> num" where
  "numNeg NegInf = PosInf"
| "numNeg PosInf = NegInf"
| "numNeg (Fin x) = Fin (- x)"

record ttEntry =
  entryScore :: num
  entryDepth :: nat
  entryBestMove :: "move option"

text \<open>
  The worker's globals.  \<open>clockReads\<close> and \<open>randomReads\<close> count the calls of
  \<open>Date.now()\<close> and \<open>Math.random()\<close> so far; the \<open>n\<close>-th call of \<open>Date.now()\<close> returns
  \<open>now n\<close> of the run below, the \<open>n\<close>-th call of \<open>Math.random()\<close> the \<open>n\<close>-th value of the
  random source the selection functions are given.  \<open>posted\<close> are the progress messages
  (depth, nodes, score).
\<close>

record worker =
  board :: board
  aiColor :: color
  currentTurn :: color
  castlingRights :: castling
  enPassantTarget :: "square option"
  positionHistory :: "string list"
  transpositionTable :: "(string \<times> ttEntry) list"
  killerMoves :: "move list list"
  historyTable :: "(move \<times> int) list"
  nodesSearched :: int
  forceTimeout :: bool
  clockReads :: nat
  randomReads :: nat
  posted :: "(nat \<times> int \<times> num) list"

text \<open>
  What one search is run with: the settings bundle, the deadline, the clock, and the
  call-stack depth available to move generation.
\<close>

record run =
  settingsOf :: settings
  deadline :: int
  now :: "nat \<Rightarrow> int"
  stackDepth :: nat

text \<open>\<open>forceTimeout || Date.now() >= deadline || nodesSearched > settings.maxNodes\<close>: the
  clock is read only when \<open>forceTimeout\<close> is off.\<close>

definition timeUp :: "run \<Rightarrow> worker \<Rightarrow> bool \<times> worker" where
  "timeUp r w =
     (if forceTimeout w then (True, w)
      else (now r (clockReads w) \<ge> deadline r \<or> nodesSearched w > maxNodes (settingsOf r),
            w\<lparr>clockReads := Suc (clockReads w)\<rparr>))"

text \<open>\<open>forceTimeout || Date.now() >= deadline\<close> of the root loops.\<close>

definition deadlinePassed :: "run \<Rightarrow> worker \<Rightarrow> bool \<times> worker" where
  "deadlinePassed r w =
     (if forceTimeout w then (True, w)
      else (now r (clockReads w) \<ge> deadline r, w\<lparr>clockReads := Suc (clockReads w)\<rparr>))"

definition ttGet :: "worker \<Rightarrow> string \<Rightarrow> ttEntry option" where
  "ttGet w boardKey = map_of (transpositionTable w) boardKey"

definition ttSet :: "string \<Rightarrow> ttEntry \<Rightarrow> worker \<Rightarrow> worker" where
  "ttSet boardKey e w = w\<lparr>transpositionTable := AList.update boardKey e (transpositionTable w)\<rparr>"

definition workerFEN :: "worker \<Rightarrow> string" where
  "workerFEN w = getFEN (board w) (currentTurn w) (castlingRights w) (enPassantTarget w)"

definition workerRepetitions :: "worker \<Rightarrow> nat" where
  "workerRepetitions w =
     countRepetitions (board w) (currentTurn w) (castlingRights w) (enPassantTarget w)
       (positionHistory w)"

text \<open>Move generation and the check test on the worker's board; the board they leave is
  written back.\<close>

definition workerMoves :: "run \<Rightarrow> color \<Rightarrow> worker \<Rightarrow> (move list \<times> worker) option" where
  "workerMoves r c w =
     (case getAllValidMoves (stackDepth r) (castlingRights w) (enPassantTarget w) (board w) c of
        None \<Rightarrow> None
      | Some (moves, b') \<Rightarrow> Some (moves, w\<lparr>board := b'\<rparr>))"

definition workerInCheck :: "run \<Rightarrow> color \<Rightarrow> worker \<Rightarrow> bool option" where
  "workerInCheck r c w =
     isInCheck (stackDepth r) (board w) (castlingRights w) (enPassantTarget w) c"

section \<open>Evaluation\<close>

fun kindValue :: "kind \<Rightarrow> int" where
  "kindValue Pawn = 100"
| "kindValue Knight = 320"
| "kindValue Bishop = 330"
| "kindValue Rook = 500"
| "kindValue Queen = 900"
| "kindValue King = 20000"

definition PIECE_VALUES :: "piece \<Rightarrow> int" where
  "PIECE_VALUES piece = kindValue (snd piece)"

definition PAWN_TABLE :: "int list" where
  "PAWN_TABLE =
    [0, 0, 0, 0, 0, 0, 0, 0,
     50, 50, 50, 50, 50, 50, 50, 50,
     10, 10, 20, 30, 30, 20, 10, 10,
     5, 5, 10, 25, 25, 10, 5, 5,
     0, 0, 0, 20, 20, 0, 0, 0,
     5, - 5, - 10, 0, 0, - 10, - 5, 5,
     5, 10, 10, - 20, - 20, 10, 10, 5,
     0, 0, 0, 0, 0, 0, 0, 0]"

definition KNIGHT_TABLE :: "int list" where
  "KNIGHT_TABLE =
    [- 50, - 40, - 30, - 30, - 30, - 30, - 40, - 50,
     - 40, - 20, 0, 0, 0, 0, - 20, - 40,
     - 30, 0, 10, 15, 15, 10, 0, - 30,
     - 30, 5, 15, 20, 20, 15, 5, - 30,
     - 30, 0, 15, 20, 20, 15, 0, - 30,
     - 30, 5, 10, 15, 15, 10, 5, - 30,
     - 40, - 20, 0, 5, 5, 0, - 20, - 40,
     - 50, - 40, - 30, - 30, - 30, - 30, - 40, - 50]"

definition BISHOP_TABLE :: "int list" where
  "BISHOP_TABLE =
    [- 20, - 10, - 10, - 10, - 10, - 10, - 10, - 20,
     - 10, 0, 0, 0, 0, 0, 0, - 10,
     - 10, 0, 5, 10, 10, 5, 0, - 10,
     - 10, 5, 5, 10, 10, 5, 5, - 10,
     - 10, 0, 10, 10, 10, 10, 0, - 10,
     - 10, 10, 10, 10, 10, 10, 10, - 10,
     - 10, 5, 0, 0, 0, 0, 5, - 10,
     - 20, - 10, - 10, - 10, - 10, - 10, - 10, - 20]"

definition KING_TABLE :: "int list" where
  "KING_TABLE =
    [- 30, - 40, - 40, - 50, - 50, - 40, - 40, - 30,
     - 30, - 40, - 40, - 50, - 50, - 40, - 40, - 30,
     - 30, - 40, - 40, - 50, - 50, - 40, - 40, - 30,
     - 30, - 40, - 40, - 50, - 50, - 40, - 40, - 30,
     - 20, - 30, - 30, - 40, - 40, - 30, - 30, - 20,
     - 10, - 20, - 20, - 20, - 20, - 20, - 20, - 10,
     20, 20, 0, 0, 0, 0, 20, 20,
     20, 30, 10, 0, 0, 10, 30, 20]"

text \<open>A table entry; the index computed from a square of the board is within the 64
  entries.\<close>

definition tableAt :: "int list \<Rightarrow> int \<Rightarrow> int" where
  "tableAt table i = (case nthI table i of Some v \<Rightarrow> v | None \<Rightarrow> 0)"

definition getPositionValue :: "piece \<Rightarrow> int \<Rightarrow> int \<Rightarrow> int" where
  "getPositionValue piece row col =
     (let isWhite = (getPieceColor piece = White);
          i = (if isWhite then (7 - row) * 8 + col else row * 8 + col)
      in (case snd piece of
            Pawn \<Rightarrow> tableAt PAWN_TABLE i
          | Knight \<Rightarrow> tableAt KNIGHT_TABLE i
          | Bishop \<Rightarrow> tableAt BISHOP_TABLE i
          | King \<Rightarrow> tableAt KING_TABLE i
          | Rook \<Rightarrow> 0
          | Queen \<Rightarrow> 0))"

definition occupied :: "board \<Rightarrow> (square \<times> piece) list" where
  "occupied b =
     concat (map (\<lambda>s. (case cell b s of None \<Rightarrow> [] | Some piece \<Rightarrow> [(s, piece)])) allSquares)"

definition countPieces :: "board \<Rightarrow> nat" where
  "countPieces b = length (occupied b)"

definition quickEval :: "worker \<Rightarrow> real" where
  "quickEval w =
     real_of_int (sum_list (map (\<lambda>(s, piece).
        if getPieceColor piece = aiColor w then PIECE_VALUES piece else - PIECE_VALUES piece)
        (occupied (board w))))"

definition evaluateMobility :: "run \<Rightarrow> worker \<Rightarrow> (real \<times> worker) option" where
  "evaluateMobility r w =
     (case workerMoves r (aiColor w) w of
        None \<Rightarrow> None
      | Some (aiMoves, w1) \<Rightarrow>
          (let opponentColor = opponent (aiColor w1);
               originalTurn = currentTurn w1;
               w2 = w1\<lparr>currentTurn := opponentColor\<rparr>
           in (case workerMoves r opponentColor w2 of
                 None \<Rightarrow> None
               | Some (opponentMoves, w3) \<Rightarrow>
                   Some ((real (length aiMoves) - real (length opponentMoves)) * 10 *
                           mobilityWeight (settingsOf r),
                         w3\<lparr>currentTurn := originalTurn\<rparr>))))"

definition evaluatePawnStructure :: "square list \<Rightarrow> square list \<Rightarrow> color \<Rightarrow> settings \<Rightarrow> real" where
  "evaluatePawnStructure whitePawns blackPawns ai st =
     (let whiteScore = sum_list (map (\<lambda>pawn.
            (if list_ex (\<lambda>p. snd p = snd pawn \<and> fst p < fst pawn) whitePawns then - 20 else 0) +
            (if \<not> list_ex (\<lambda>p. \<bar>snd p - snd pawn\<bar> = 1) whitePawns then - 15 else 0) +
            (if \<not> list_ex (\<lambda>p. \<bar>snd p - snd pawn\<bar> \<le> 1 \<and> fst p > fst pawn) blackPawns
             then (6 - fst pawn) * 10 else 0)) whitePawns);
          blackScore = sum_list (map (\<lambda>pawn.
            (if list_ex (\<lambda>p. snd p = snd pawn \<and> fst p > fst pawn) blackPawns then 20 else 0) +
            (if \<not> list_ex (\<lambda>p. \<bar>snd p - snd pawn\<bar> = 1) blackPawns then 15 else 0) +
            (if \<not> list_ex (\<lambda>p. \<bar>snd p - snd pawn\<bar> \<le> 1 \<and> fst p < fst pawn) whitePawns
             then - ((fst pawn - 1) * 10) else 0)) blackPawns);
          score = whiteScore + blackScore
      in real_of_int (if ai = White then score else - score) * pawnStructureWeight st)"

definition centerDistance :: "int \<Rightarrow> int \<Rightarrow> real" where
  "centerDistance row col = \<bar>35 / 10 - real_of_int row\<bar> + \<bar>35 / 10 - real_of_int col\<bar>"

definition kingSafetyAt :: "board \<Rightarrow> square \<Rightarrow> color \<Rightarrow> real" where
  "kingSafetyAt b s pieceColor =
     (let row = fst s; col = snd s;
          direction = (if pieceColor = White then - 1 else 1);
          pawnShield = sum_list (map (\<lambda>dc.
             (let shieldRow = row + direction; shieldCol = col + dc in
              if isValidSquare shieldRow shieldCol \<and>
                 cell b (shieldRow, shieldCol) = Some (pieceColor, Pawn)
              then 20 else 0)) [- 1, 0, 1]);
          defenders = sum_list (map (\<lambda>(dr, dc).
             (if dr = 0 \<and> dc = 0 then 0
              else if isValidSquare (row + dr) (col + dc) \<and>
                      map_option getPieceColor (cell b (row + dr, col + dc)) = Some pieceColor
              then 8 else 0))
             (concat (map (\<lambda>dr. map (\<lambda>dc. (dr, dc)) [- 1, 0, 1]) [- 1, 0, 1])));
          pieceCount = countPieces b;
          centralization =
            (if pieceCount \<le> 12 then (7 - centerDistance row col) * 15
             else centerDistance row col * 5);
          openFilePenalty = sum_list (map (\<lambda>dc.
             (let fileCol = col + dc in
              if fileCol \<ge> 0 \<and> fileCol < 8 then
                (if list_ex (\<lambda>r. cell b (r, fileCol) = Some (pieceColor, Pawn)) idx8 then 0
                 else - 15)
              else 0)) [- 1, 0, 1])
      in real_of_int (pawnShield + defenders) + centralization + real_of_int openFilePenalty)"

definition evaluateKingSafety :: "worker \<Rightarrow> settings \<Rightarrow> real" where
  "evaluateKingSafety w st =
     sum_list (map (\<lambda>(s, piece).
        if snd piece = King then
          kingSafetyAt (board w) s (getPieceColor piece) *
            (if getPieceColor piece = aiColor w then 1 else - 1) * kingSafetyWeight st
        else 0) (occupied (board w)))"

definition evaluatePosition :: "run \<Rightarrow> worker \<Rightarrow> (real \<times> worker) option" where
  "evaluatePosition r w =
     (let st = settingsOf r;
          pieces = occupied (board w);
          mult = (\<lambda>piece. if getPieceColor piece = aiColor w then 1 else - 1);
          materialScore = sum_list (map (\<lambda>(s, piece). PIECE_VALUES piece * mult piece) pieces);
          positionScore =
            (if positionWeight st > 0 then
               sum_list (map (\<lambda>(s, piece).
                  real_of_int (getPositionValue piece (fst s) (snd s)) * positionWeight st *
                    real_of_int (mult piece)) pieces)
             else 0);
          whitePawns = map fst (filter (\<lambda>(s, piece). piece = (White, Pawn)) pieces);
          blackPawns = map fst (filter (\<lambda>(s, piece). piece = (Black, Pawn)) pieces)
      in
      (case (if mobilityWeight st > 0 then evaluateMobility r w else Some (0, w)) of
         None \<Rightarrow> None
       | Some (mobilityScore, w') \<Rightarrow>
           (let pawnStructureScore =
                  (if pawnStructureWeight st > 0
                   then evaluatePawnStructure whitePawns blackPawns (aiColor w') st else 0);
                kingSafetyScore =
                  (if kingSafetyWeight st > 0 then evaluateKingSafety w' st else 0)
            in Some (real_of_int materialScore + positionScore + mobilityScore +
                       pawnStructureScore + kingSafetyScore, w'))))"

section \<open>Move ordering, killer moves, history\<close>

fun allSome :: "'a option list \<Rightarrow> 'a list option" where
  "allSome [] = Some []"
| "allSome (None # xs) = None"
| "allSome (Some x # xs) = map_option (\<lambda>ys. x # ys) (allSome xs)"

text \<open>The score \<open>orderMoves\<close> gives one move.  \<open>ply\<close> is the parameter the source calls
  \<open>depth\<close> here and \<open>searchDepth\<close> in \<open>alphaBetaSearch\<close>.  An empty origin square fails in
  \<open>movingPiece.toLowerCase()\<close>.\<close>

definition orderScore :: "worker \<Rightarrow> move option \<Rightarrow> nat \<Rightarrow> move \<Rightarrow> real option" where
  "orderScore w bestMove ply m =
     (let targetPiece = cell (board w) (snd m) in
      (case cell (board w) (fst m) of
         None \<Rightarrow> None
       | Some movingPiece \<Rightarrow>
           Some (
             (if bestMove = Some m then 100000 else 0) +
             (case targetPiece of
                None \<Rightarrow> 0
              | Some t \<Rightarrow> real_of_int (10000 + (PIECE_VALUES t * 10 - PIECE_VALUES movingPiece))) +
             (if snd movingPiece = Pawn \<and> (fst (snd m) = 0 \<or> fst (snd m) = 7) then 9000 else 0) +
             (if targetPiece = None \<and> ply < length (killerMoves w) then
                real_of_int (sum_list (map (\<lambda>(i, killer).
                   if killer = m then 8000 - int i * 1000 else 0)
                   (enumerate 0 (killerMoves w ! ply))))
              else 0) +
             (case map_of (historyTable w) m of None \<Rightarrow> 0 | Some h \<Rightarrow> real_of_int h) +
             (7 - centerDistance (fst (snd m)) (snd (snd m))) * 10 +
             (if (snd movingPiece = Knight \<or> snd movingPiece = Bishop) \<and>
                 fst (fst m) = (if getPieceColor movingPiece = White then 7 else 0)
              then 50 else 0))))"

text \<open>\<open>Array.prototype.sort\<close> with the comparator \<open>b.score - a.score\<close>: a stable sort,
  highest score first.\<close>

definition orderMoves :: "worker \<Rightarrow> move list \<Rightarrow> move option \<Rightarrow> nat \<Rightarrow> move list option" where
  "orderMoves w moves bestMove ply =
     (case allSome (map (orderScore w bestMove ply) moves) of
        None \<Rightarrow> None
      | Some scores \<Rightarrow> Some (map fst (sort_key (\<lambda>sm. - snd sm) (zip moves scores))))"

definition storeKillerMove :: "move \<Rightarrow> nat \<Rightarrow> worker \<Rightarrow> worker" where
  "storeKillerMove m ply w =
     (if ply \<ge> length (killerMoves w) then w
      else
        (let killers = killerMoves w ! ply in
         if m \<in> set killers then w
         else
           (let unshifted = m # killers;
                killers' = (if length unshifted > 2 then butlast unshifted else unshifted)
            in w\<lparr>killerMoves := (killerMoves w)[ply := killers']\<rparr>)))"

definition updateHistory :: "move \<Rightarrow> nat \<Rightarrow> worker \<Rightarrow> worker" where
  "updateHistory m depth w =
     (let old = (case map_of (historyTable w) m of None \<Rightarrow> 0 | Some h \<Rightarrow> h)
      in w\<lparr>historyTable := AList.update m (old + int depth * int depth) (historyTable w)\<rparr>)"

section \<open>Search\<close>

text \<open>The search's make and unmake steps: two assignments each.\<close>

definition makeStep :: "move \<Rightarrow> worker \<Rightarrow> worker" where
  "makeStep m w =
     (let piece = cell (board w) (fst m);
          w1 = w\<lparr>board := setCell (board w) (snd m) piece\<rparr>
      in w1\<lparr>board := setCell (board w1) (fst m) None\<rparr>)"

definition unmakeStep :: "move \<Rightarrow> piece option \<Rightarrow> piece option \<Rightarrow> worker \<Rightarrow> worker" where
  "unmakeStep m piece captured w =
     (let w1 = w\<lparr>board := setCell (board w) (fst m) piece\<rparr>
      in w1\<lparr>board := setCell (board w1) (snd m) captured\<rparr>)"

definition sideToSearch :: "worker \<Rightarrow> bool \<Rightarrow> color" where
  "sideToSearch w isMaximizing = (if isMaximizing then aiColor w else opponent (aiColor w))"

text \<open>The \<open>filter\<close> of \<open>quiescenceSearch\<close>: captures, and moves after which the other
  side is in check (tested on the board, which is then written back).\<close>

fun tacticalFilter :: "run \<Rightarrow> color \<Rightarrow> move list \<Rightarrow> worker \<Rightarrow> (move list \<times> worker) option" where
  "tacticalFilter r c [] w = Some ([], w)"
| "tacticalFilter r c (m # rest) w =
     (if cell (board w) (snd m) \<noteq> None then
        map_option (\<lambda>(ms, w'). (m # ms, w')) (tacticalFilter r c rest w)
      else
        (let piece = cell (board w) (fst m);
             w2 = makeStep m w
         in (case workerInCheck r (opponent c) w2 of
               None \<Rightarrow> None
             | Some givesCheck \<Rightarrow>
                 (let w4 = unmakeStep m piece None w2
                  in map_option (\<lambda>(ms, w'). (if givesCheck then m # ms else ms, w'))
                       (tacticalFilter r c rest w4)))))"

function quiescenceSearch :: "run \<Rightarrow> num \<Rightarrow> num \<Rightarrow> bool \<Rightarrow> nat \<Rightarrow> worker \<Rightarrow> (num \<times> worker) option"
  and quiescenceLoop ::
    "run \<Rightarrow> bool \<Rightarrow> nat \<Rightarrow> move list \<Rightarrow> num \<Rightarrow> num \<Rightarrow> worker \<Rightarrow> (num \<times> worker) option"
where
  "quiescenceSearch r alpha beta isMaximizing qdepth w0 =
     (if qdepth > 4 then map_option (\<lambda>(v, w'). (Fin v, w')) (evaluatePosition r w0)
      else
        (let (stop, w) = timeUp r w0 in
         if stop then map_option (\<lambda>(v, w'). (Fin v, w')) (evaluatePosition r w)
         else
           (case evaluatePosition r w of
              None \<Rightarrow> None
            | Some (v, w1) \<Rightarrow>
                (let standPat = Fin v in
                 if isMaximizing \<and> \<not> numLess standPat beta then Some (beta, w1)
                 else if \<not> isMaximizing \<and> \<not> numLess alpha standPat then Some (alpha, w1)
                 else
                   (let alpha1 = (if isMaximizing \<and> numLess alpha standPat then standPat else alpha);
                        beta1 = (if \<not> isMaximizing \<and> numLess standPat beta then standPat else beta);
                        c = sideToSearch w1 isMaximizing
                    in (case workerMoves r c w1 of
                          None \<Rightarrow> None
                        | Some (allMoves, w2) \<Rightarrow>
                            (case tacticalFilter r c allMoves w2 of
                               None \<Rightarrow> None
                             | Some (tacticalMoves, w3) \<Rightarrow>
                                 if tacticalMoves = [] then Some (standPat, w3)
                                 else
                                   (case orderMoves w3 tacticalMoves None 0 of
                                      None \<Rightarrow> None
                                    | Some orderedMoves \<Rightarrow>
                                        quiescenceLoop r isMaximizing qdepth orderedMoves
                                          alpha1 beta1 w3))))))))"
| "quiescenceLoop r isMaximizing qdepth [] alpha beta w =
     Some (if isMaximizing then alpha else beta, w)"
| "quiescenceLoop r isMaximizing qdepth (m # rest) alpha beta w0 =
     (let (stop, w) = timeUp r w0 in
      if stop then Some (if isMaximizing then alpha else beta, w)
      else
        (let piece = cell (board w) (fst m);
             captured = cell (board w) (snd m)
         in (case quiescenceSearch r alpha beta (\<not> isMaximizing) (qdepth + 1) (makeStep m w) of
               None \<Rightarrow> None
             | Some (score, w4) \<Rightarrow>
                 (let w6 = unmakeStep m piece captured w4 in
                  if isMaximizing then
                    (if \<not> numLess score beta then Some (beta, w6)
                     else quiescenceLoop r isMaximizing qdepth rest
                            (if numLess alpha score then score else alpha) beta w6)
                  else
                    (if \<not> numLess alpha score then Some (alpha, w6)
                     else quiescenceLoop r isMaximizing qdepth rest
                            alpha (if numLess score beta then score else beta) w6)))))"
  by pat_completeness auto
termination
  by (relation "measures
        [\<lambda>x. case x of Inl (r, a, b, im, qd, w) \<Rightarrow> 2 * (6 - qd)
                      | Inr (r, im, qd, ms, a, b, w) \<Rightarrow> 2 * (5 - qd) + 1,
         \<lambda>x. case x of Inl _ \<Rightarrow> 0 | Inr (r, im, qd, ms, a, b, w) \<Rightarrow> length ms]")
    auto

text \<open>
  \<open>alphaBetaSearch\<close>, and its two move loops as one function (\<open>isMaximizing\<close> selects the
  maximising or the minimising loop; they differ in the comparison and in which bound
  moves).  \<open>childDepth\<close> is \<open>depth - 1\<close>.
\<close>

definition ttHit :: "ttEntry option \<Rightarrow> nat \<Rightarrow> num option" where
  "ttHit ttEntry depth =
     (case ttEntry of
        None \<Rightarrow> None
      | Some e \<Rightarrow> if entryDepth e \<ge> depth then Some (entryScore e) else None)"

function alphaBetaSearch ::
    "run \<Rightarrow> nat \<Rightarrow> num \<Rightarrow> num \<Rightarrow> bool \<Rightarrow> nat \<Rightarrow> worker \<Rightarrow> (num \<times> worker) option"
  and searchLoop ::
    "run \<Rightarrow> nat \<Rightarrow> bool \<Rightarrow> nat \<Rightarrow> move list \<Rightarrow> num \<Rightarrow> num \<Rightarrow> num \<Rightarrow> move option \<Rightarrow> worker \<Rightarrow>
       (num \<times> move option \<times> worker) option"
where
  "alphaBetaSearch r depth alpha beta isMaximizing ply w0 =
     (let (stop, w) = timeUp r (w0\<lparr>nodesSearched := nodesSearched w0 + 1\<rparr>) in
      if stop then Some (Fin (quickEval w), w)
      else if workerRepetitions w \<ge> 2 then Some (Fin 0, w)
      else
        (let boardKey = workerFEN w;
             ttEntry = ttGet w boardKey
         in (case ttHit ttEntry depth of
               Some cached \<Rightarrow> Some (cached, w)
             | None \<Rightarrow>
                 (case depth of
                    0 \<Rightarrow>
                      (case (if useQuiescence (settingsOf r)
                             then quiescenceSearch r alpha beta isMaximizing 0 w
                             else map_option (\<lambda>(v, w'). (Fin v, w')) (evaluatePosition r w)) of
                         None \<Rightarrow> None
                       | Some (score, w1) \<Rightarrow>
                           Some (score,
                             ttSet boardKey
                               \<lparr>entryScore = score, entryDepth = depth, entryBestMove = None\<rparr> w1))
                  | Suc childDepth \<Rightarrow>
                      (let c = sideToSearch w isMaximizing in
                       (case workerMoves r c w of
                          None \<Rightarrow> None
                        | Some (moves, w1) \<Rightarrow>
                            if moves = [] then
                              (case workerInCheck r c w1 of
                                 None \<Rightarrow> None
                               | Some inCheck \<Rightarrow>
                                   (let score =
                                      (if inCheck
                                       then (if isMaximizing then Fin (- 999999) else Fin 999999)
                                       else Fin 0)
                                    in Some (score,
                                         ttSet boardKey
                                           \<lparr>entryScore = score, entryDepth = depth,
                                             entryBestMove = None\<rparr> w1)))
                            else
                              (case orderMoves w1 moves
                                      (case ttEntry of None \<Rightarrow> None | Some e \<Rightarrow> entryBestMove e)
                                      ply of
                                 None \<Rightarrow> None
                               | Some orderedMoves \<Rightarrow>
                                   (case searchLoop r childDepth isMaximizing ply orderedMoves
                                           alpha beta (if isMaximizing then NegInf else PosInf)
                                           None w1 of
                                      None \<Rightarrow> None
                                    | Some (best, bestMoveAtDepth, w2) \<Rightarrow>
                                        Some (best,
                                          ttSet boardKey
                                            \<lparr>entryScore = best, entryDepth = depth,
                                              entryBestMove = bestMoveAtDepth\<rparr> w2)))))))))"
| "searchLoop r childDepth isMaximizing ply [] alpha beta best bestMoveAtDepth w =
     Some (best, bestMoveAtDepth, w)"
| "searchLoop r childDepth isMaximizing ply (m # rest) alpha beta best bestMoveAtDepth w0 =
     (let (stop, w) = timeUp r w0 in
      if stop then Some (best, bestMoveAtDepth, w)
      else
        (let piece = cell (board w) (fst m);
             captured = cell (board w) (snd m)
         in (case alphaBetaSearch r childDepth alpha beta (\<not> isMaximizing) (Suc ply)
                   (makeStep m w) of
               None \<Rightarrow> None
             | Some (evaluation, w4) \<Rightarrow>
                 (let w6 = unmakeStep m piece captured w4;
                      better = (if isMaximizing then numLess best evaluation
                                else numLess evaluation best);
                      best' = (if better then evaluation else best);
                      bestMove' = (if better then Some m else bestMoveAtDepth);
                      alpha' = (if isMaximizing then numMax alpha evaluation else alpha);
                      beta' = (if isMaximizing then beta else numMin beta evaluation)
                  in
                  if \<not> numLess alpha' beta' then
                    Some (best', bestMove',
                      updateHistory m (Suc childDepth)
                        (if captured = None then storeKillerMove m ply w6 else w6))
                  else searchLoop r childDepth isMaximizing ply rest alpha' beta' best'
                         bestMove' w6))))"
  by pat_completeness auto
termination
  by (relation "measures
        [\<lambda>x. case x of Inl (r, d, a, b, im, ply, w) \<Rightarrow> 2 * d
                      | Inr (r, d, im, ply, ms, a, b, best, bm, w) \<Rightarrow> 2 * d + 1,
         \<lambda>x. case x of Inl _ \<Rightarrow> 0 | Inr (r, d, im, ply, ms, a, b, best, bm, w) \<Rightarrow> length ms]")
    auto

section \<open>Root search and move selection\<close>

record result =
  resultMove :: "move option"
  resultScore :: num
  resultDepth :: nat

definition drawRandom :: "(nat \<Rightarrow> real) \<Rightarrow> worker \<Rightarrow> real \<times> worker" where
  "drawRandom random w = (random (randomReads w), w\<lparr>randomReads := Suc (randomReads w)\<rparr>)"

text \<open>\<open>xs[Math.floor(x * xs.length)]\<close>; past the end the element is \<open>undefined\<close> and the
  access to its field fails.\<close>

definition pickAt :: "'a list \<Rightarrow> real \<Rightarrow> 'a option" where
  "pickAt xs x = nthI xs \<lfloor>x * real (length xs)\<rfloor>"

definition maybeBlunder ::
  "run \<Rightarrow> (nat \<Rightarrow> real) \<Rightarrow> (move \<times> real) list \<Rightarrow> worker \<Rightarrow> (move option \<times> worker) option" where
  "maybeBlunder r random moveScores w0 =
     (let (x, w) = drawRandom random w0 in
      if x \<ge> mistakeRate (settingsOf r) then Some (None, w)
      else
        (case moveScores of
           [] \<Rightarrow> None
         | first # others \<Rightarrow>
             (let bestScore = snd first;
                  targetScore = bestScore - real_of_int (mistakeSizeCp (settingsOf r));
                  blunderCandidates =
                    filter (\<lambda>m. \<bar>snd m - targetScore\<bar> < 50 \<and> snd m < bestScore - 50) moveScores
              in
              if length blunderCandidates > 0 then
                (let (y, w1) = drawRandom random w in
                 (case pickAt blunderCandidates y of
                    None \<Rightarrow> None
                  | Some selected \<Rightarrow> Some (Some (fst selected), w1)))
              else if length moveScores > 1 then
                (let worseIndex = min (length moveScores div 2) (length moveScores - 1)
                 in Some (Some (fst (moveScores ! worseIndex)), w))
              else Some (None, w))))"

text \<open>The weighted pick of \<open>selectMoveWithSoftmax\<close> over the moves still to visit.\<close>

fun pickCumulative :: "real \<Rightarrow> real \<Rightarrow> (move \<times> real) list \<Rightarrow> move option" where
  "pickCumulative rand cumulative [] = None"
| "pickCumulative rand cumulative ((m, probability) # rest) =
     (if rand \<le> cumulative + probability then Some m
      else pickCumulative rand (cumulative + probability) rest)"

definition selectMoveWithSoftmax ::
  "run \<Rightarrow> (nat \<Rightarrow> real) \<Rightarrow> (move \<times> real) list \<Rightarrow> worker \<Rightarrow> (move \<times> worker) option" where
  "selectMoveWithSoftmax r random moveScores w =
     (case moveScores of
        [] \<Rightarrow> None
      | first # others \<Rightarrow>
          (let bestScore = snd first;
               windowSize = (if softmaxWindow (settingsOf r) = 0 then 50
                             else softmaxWindow (settingsOf r));
               topMoves = filter (\<lambda>m. snd m \<ge> bestScore - real_of_int windowSize) moveScores
           in
           (case topMoves of
              [] \<Rightarrow> None
            | topMove # lowerMoves \<Rightarrow>
                if length topMoves = 1 then Some (fst topMove, w)
                else
                  (let temp = (if temperature (settingsOf r) = 0 then 5 / 10
                               else temperature (settingsOf r));
                       expScores = map (\<lambda>m. exp (snd m / temp)) topMoves;
                       sumExp = sum_list expScores;
                       probabilities = map (\<lambda>e. e / sumExp) expScores;
                       (rand, w1) = drawRandom random w
                   in (case pickCumulative rand 0 (zip (map fst topMoves) probabilities) of
                         Some m \<Rightarrow> Some (m, w1)
                       | None \<Rightarrow> Some (fst topMove, w1))))))"

text \<open>The root's loop over the ordered moves at one depth.\<close>

fun rootLoop ::
  "run \<Rightarrow> nat \<Rightarrow> move list \<Rightarrow> move option \<Rightarrow> num \<Rightarrow> (move \<times> num) list \<Rightarrow> worker \<Rightarrow>
     (move option \<times> num \<times> (move \<times> num) list \<times> worker) option" where
  "rootLoop r depth [] depthBestMove depthBestScore depthMoveScores w =
     Some (depthBestMove, depthBestScore, depthMoveScores, w)"
| "rootLoop r depth (m # rest) depthBestMove depthBestScore depthMoveScores w0 =
     (let (stop, w) = deadlinePassed r w0 in
      if stop then Some (depthBestMove, depthBestScore, depthMoveScores, w)
      else if nodesSearched w > maxNodes (settingsOf r) then
        Some (depthBestMove, depthBestScore, depthMoveScores, w\<lparr>forceTimeout := True\<rparr>)
      else
        (let piece = cell (board w) (fst m);
             captured = cell (board w) (snd m)
         in (case alphaBetaSearch r (depth - 1) NegInf PosInf False 0 (makeStep m w) of
               None \<Rightarrow> None
             | Some (v, w4) \<Rightarrow>
                 (let score = numNeg v;
                      w6 = unmakeStep m piece captured w4;
                      better = numLess depthBestScore score
                  in rootLoop r depth rest
                       (if better then Some m else depthBestMove)
                       (if better then score else depthBestScore)
                       (depthMoveScores @ [(m, score)]) w6))))"

text \<open>Iterative deepening over the depths still to run.\<close>

fun deepen ::
  "run \<Rightarrow> nat list \<Rightarrow> move list \<Rightarrow> move \<Rightarrow> num \<Rightarrow> nat \<Rightarrow> (move \<times> num) list \<Rightarrow> worker \<Rightarrow>
     (move \<times> num \<times> nat \<times> (move \<times> num) list \<times> worker) option" where
  "deepen r [] moves bestMove bestScore completedDepth allMoveScores w =
     Some (bestMove, bestScore, completedDepth, allMoveScores, w)"
| "deepen r (depth # depths) moves bestMove bestScore completedDepth allMoveScores w0 =
     (let (stop, w) = deadlinePassed r w0 in
      if stop then Some (bestMove, bestScore, completedDepth, allMoveScores, w)
      else
        (case orderMoves w moves (Some bestMove) 0 of
           None \<Rightarrow> None
         | Some orderedMoves \<Rightarrow>
             (case rootLoop r depth orderedMoves None NegInf [] w of
                None \<Rightarrow> None
              | Some (depthBestMove, depthBestScore, depthMoveScores, w1) \<Rightarrow>
                  (case depthBestMove of
                     None \<Rightarrow>
                       deepen r depths moves bestMove bestScore completedDepth allMoveScores w1
                   | Some dbm \<Rightarrow>
                       if forceTimeout w1 then
                         deepen r depths moves bestMove bestScore completedDepth allMoveScores w1
                       else
                         (let w2 = w1\<lparr>clockReads := Suc (clockReads w1)\<rparr> in
                          if now r (clockReads w1) < deadline r then
                            deepen r depths moves dbm depthBestScore depth depthMoveScores
                              (w2\<lparr>posted := posted w2 @ [(depth, nodesSearched w2, depthBestScore)]\<rparr>)
                          else
                            deepen r depths moves bestMove bestScore completedDepth
                              allMoveScores w2)))))"

text \<open>
  A score list for the selection: the finite scores.  A list that holds an infinity (a
  depth cut short and still accepted, which needs a clock running backwards) takes
  \<open>maybeBlunder\<close> and the softmax into NaN arithmetic, which is not modelled.
\<close>

fun finiteScores :: "(move \<times> num) list \<Rightarrow> (move \<times> real) list option" where
  "finiteScores [] = Some []"
| "finiteScores ((m, Fin x) # rest) = map_option (\<lambda>ys. (m, x) # ys) (finiteScores rest)"
| "finiteScores ((m, NegInf) # rest) = None"
| "finiteScores ((m, PosInf) # rest) = None"

definition getBestMove :: "run \<Rightarrow> (nat \<Rightarrow> real) \<Rightarrow> worker \<Rightarrow> (result \<times> worker) option" where
  "getBestMove r random w0 =
     (case workerMoves r (aiColor w0) w0 of
        None \<Rightarrow> None
      | Some (moves, w) \<Rightarrow>
          (case moves of
             [] \<Rightarrow> Some (\<lparr>resultMove = None, resultScore = Fin 0, resultDepth = 0\<rparr>, w)
           | firstMove # otherMoves \<Rightarrow>
               if searchDepth (settingsOf r) = 0 then
                 (let (x, w1) = drawRandom random w in
                  (case pickAt moves x of
                     None \<Rightarrow> None
                   | Some m \<Rightarrow>
                       Some (\<lparr>resultMove = Some m, resultScore = Fin 0, resultDepth = 0\<rparr>, w1)))
               else
                 (case deepen r [1 ..< Suc (nat (searchDepth (settingsOf r)))] moves firstMove
                         NegInf 0 [] w of
                    None \<Rightarrow> None
                  | Some (bestMove, bestScore, completedDepth, allMoveScores, w1) \<Rightarrow>
                      if length allMoveScores > 0 then
                        (case finiteScores allMoveScores of
                           None \<Rightarrow> None
                         | Some scores \<Rightarrow>
                             (let sorted = sort_key (\<lambda>ms. - snd ms) scores in
                              (case maybeBlunder r random sorted w1 of
                                 None \<Rightarrow> None
                               | Some (Some blunderMove, w2) \<Rightarrow>
                                   Some (\<lparr>resultMove = Some blunderMove, resultScore = bestScore,
                                          resultDepth = completedDepth\<rparr>, w2)
                               | Some (None, w2) \<Rightarrow>
                                   (case selectMoveWithSoftmax r random sorted w2 of
                                      None \<Rightarrow> None
                                    | Some (selectedMove, w3) \<Rightarrow>
                                        Some (\<lparr>resultMove = Some selectedMove,
                                               resultScore = bestScore,
                                               resultDepth = completedDepth\<rparr>, w3)))))
                      else
                        Some (\<lparr>resultMove = Some bestMove, resultScore = bestScore,
                               resultDepth = completedDepth\<rparr>, w1))))"

text \<open>
  The worker's \<open>onmessage\<close> for a \<open>search\<close> request: the position is taken from the
  message, the counters are reset, the transposition table is cleared only when it holds
  more than 100000 entries (the killer and history tables are not touched), and the answer
  is posted.  \<open>clock\<close> and \<open>stack\<close> are the readings of \<open>Date.now()\<close> and the call-stack
  depth of this run.
\<close>

record request =
  reqBoard :: board
  reqSettings :: settings
  reqAiColor :: color
  reqCastlingRights :: castling
  reqEnPassantTarget :: "square option"
  reqPositionHistory :: "string list"
  reqCurrentTurn :: color

record moveMessage =
  msgMove :: "move option"
  msgScore :: num
  msgDepth :: nat
  msgNodes :: int
  msgTime :: int

definition onSearch ::
  "(nat \<Rightarrow> int) \<Rightarrow> nat \<Rightarrow> (nat \<Rightarrow> real) \<Rightarrow> request \<Rightarrow> worker \<Rightarrow> (moveMessage \<times> worker) option" where
  "onSearch clock stack random req w0 =
     (let w1 = w0\<lparr>board := reqBoard req, aiColor := reqAiColor req,
                   currentTurn := reqCurrentTurn req, castlingRights := reqCastlingRights req,
                   enPassantTarget := reqEnPassantTarget req,
                   positionHistory := reqPositionHistory req\<rparr>;
          startTime = clock (clockReads w1);
          w2 = w1\<lparr>clockReads := Suc (clockReads w1), forceTimeout := False, nodesSearched := 0\<rparr>;
          w3 = (if length (transpositionTable w2) > 100000 then w2\<lparr>transpositionTable := []\<rparr>
                else w2);
          r = \<lparr>settingsOf = reqSettings req,
               deadline = startTime + \<lfloor>real_of_int (timePerMove (reqSettings req)) * (9 / 10)\<rfloor>,
               now = clock, stackDepth = stack\<rparr>
      in (case getBestMove r random w3 of
            None \<Rightarrow> None
          | Some (res, w4) \<Rightarrow>
              Some (\<lparr>msgMove = resultMove res, msgScore = resultScore res,
                      msgDepth = resultDepth res, msgNodes = nodesSearched w4,
                      msgTime = clock (clockReads w4) - startTime\<rparr>,
                    w4\<lparr>clockReads := Suc (clockReads w4)\<rparr>)))"

text \<open>The worker as the script leaves it when loaded.\<close>

definition initialWorker :: worker where
  "initialWorker =
     \<lparr>board = [], aiColor = White, currentTurn = White,
      castlingRights = \<lparr>white = \<lparr>kingside = False, queenside = False\<rparr>,
                         black = \<lparr>kingside = False, queenside = False\<rparr>\<rparr>,
      enPassantTarget = None, positionHistory = [], transpositionTable = [],
      killerMoves = replicate 20 [], historyTable = [], nodesSearched = 0,
      forceTimeout = False, clockReads = 0, randomReads = 0, posted = []\<rparr>"

text \<open>
  Plain minimax in the specification's words: no pruning, no cache; the static evaluation
  at depth 0, the mate or stalemate score where the side to move has no legal move, and
  otherwise the best child value for the side to move.
\<close>

fun minimax :: "run \<Rightarrow> nat \<Rightarrow> bool \<Rightarrow> worker \<Rightarrow> num option" where
  "minimax r 0 isMaximizing w = map_option (\<lambda>(v, w'). Fin v) (evaluatePosition r w)"
| "minimax r (Suc d) isMaximizing w =
     (let c = sideToSearch w isMaximizing in
      (case workerMoves r c w of
         None \<Rightarrow> None
       | Some (moves, w1) \<Rightarrow>
           if moves = [] then
             (case workerInCheck r c w of
                None \<Rightarrow> None
              | Some inCheck \<Rightarrow>
                  Some (if inCheck then (if isMaximizing then Fin (- 999999) else Fin 999999)
                        else Fin 0))
           else
             (case allSome (map (\<lambda>m. minimax r d (\<not> isMaximizing) (makeStep m w)) moves) of
                None \<Rightarrow> None
              | Some vs \<Rightarrow>
                  Some (foldl (if isMaximizing then numMax else numMin)
                          (if isMaximizing then NegInf else PosInf) vs))))"

text \<open>The position (board and ancillary state) and the random-source position are the
  same in two worker states.\<close>

definition sameGame :: "worker \<Rightarrow> worker \<Rightarrow> bool" where
  "sameGame w w' =
     (board w' = board w \<and> castlingRights w' = castlingRights w \<and>
      enPassantTarget w' = enPassantTarget w \<and> aiColor w' = aiColor w \<and>
      currentTurn w' = currentTurn w \<and> positionHistory w' = positionHistory w \<and>
      randomReads w' = randomReads w)"

section \<open>chess.js: makeMove\<close>

text \<open>
  The game object's fields that \<open>makeMove\<close> and \<open>checkGameOver\<close> read and write.
  \<open>capturedWhite\<close> is \<open>capturedPieces.white\<close> (the black pieces white has taken).
\<close>

record historyEntry =
  moveNotation :: string
  movedPiece :: piece
  movedFrom :: square
  movedTo :: square
  capturedPiece :: "piece option"
  boardAfter :: board

record game =
  gameBoard :: board
  gameTurn :: color
  gameEnPassantTarget :: "square option"
  gameCastlingRights :: castling
  capturedWhite :: "piece list"
  capturedBlack :: "piece list"
  lastMove :: "move option"
  moveHistory :: "historyEntry list"
  gamePositionHistory :: "string list"
  gameOver :: bool

definition pushCaptured :: "piece \<Rightarrow> game \<Rightarrow> game" where
  "pushCaptured p g =
     (if getPieceColor p = White then g\<lparr>capturedBlack := capturedBlack g @ [p]\<rparr>
      else g\<lparr>capturedWhite := capturedWhite g @ [p]\<rparr>)"

definition squareName :: "square \<Rightarrow> string" where
  "squareName s = char_of (97 + snd s) # showInt (8 - fst s)"

definition getMoveNotation :: "board \<Rightarrow> piece \<Rightarrow> square \<Rightarrow> square \<Rightarrow> string" where
  "getMoveNotation b piece src dst =
     (if snd piece = Pawn then [] else [pieceChar (White, snd piece)]) @ squareName src @
     (if cell b dst \<noteq> None then ''x'' else []) @ squareName dst"

text \<open>The blocks of \<open>makeMove\<close>, in the order of the source.  \<open>gameTurn\<close> (the mover)
  is switched only at the end.\<close>

definition handleEnPassant :: "piece \<Rightarrow> square \<Rightarrow> game \<Rightarrow> game" where
  "handleEnPassant piece dst g =
     (if gameEnPassantTarget g = Some dst \<and> snd piece = Pawn then
        (let capturedRow = (if gameTurn g = White then fst dst + 1 else fst dst - 1);
             capturedPawn = cell (gameBoard g) (capturedRow, snd dst);
             g' = g\<lparr>gameBoard := setCell (gameBoard g) (capturedRow, snd dst) None\<rparr>
         in (case capturedPawn of None \<Rightarrow> g' | Some pawn \<Rightarrow> pushCaptured pawn g'))
      else g)"

definition handleCastling :: "piece \<Rightarrow> square \<Rightarrow> square \<Rightarrow> game \<Rightarrow> game" where
  "handleCastling piece src dst g =
     (if snd piece = King \<and> \<bar>snd dst - snd src\<bar> = 2 then
        (let rookFromCol = (if snd dst > snd src then 7 else 0);
             rookToCol = (if snd dst > snd src then snd dst - 1 else snd dst + 1);
             b1 = setCell (gameBoard g) (fst dst, rookToCol)
                    (cell (gameBoard g) (fst dst, rookFromCol))
         in g\<lparr>gameBoard := setCell b1 (fst dst, rookFromCol) None\<rparr>)
      else g)"

definition movePiece :: "piece \<Rightarrow> square \<Rightarrow> square \<Rightarrow> game \<Rightarrow> game" where
  "movePiece piece src dst g =
     g\<lparr>gameBoard := setCell (setCell (gameBoard g) dst (Some piece)) src None\<rparr>"

definition handlePromotion :: "piece \<Rightarrow> square \<Rightarrow> game \<Rightarrow> game" where
  "handlePromotion piece dst g =
     (if snd piece = Pawn \<and> (fst dst = 0 \<or> fst dst = 7)
      then g\<lparr>gameBoard := setCell (gameBoard g) dst (Some (gameTurn g, Queen))\<rparr>
      else g)"

definition updateCastlingRights :: "piece \<Rightarrow> square \<Rightarrow> game \<Rightarrow> game" where
  "updateCastlingRights piece src g =
     (let g1 = (if snd piece = King
                then g\<lparr>gameCastlingRights :=
                       setRights (gameCastlingRights g) (gameTurn g)
                         \<lparr>kingside = False, queenside = False\<rparr>\<rparr>
                else g)
      in if snd piece = Rook then
           (let cr = gameCastlingRights g1;
                side = rightsOf cr (gameTurn g1);
                side1 = (if snd src = 0 then side\<lparr>queenside := False\<rparr> else side);
                side2 = (if snd src = 7 then side1\<lparr>kingside := False\<rparr> else side1)
            in g1\<lparr>gameCastlingRights := setRights cr (gameTurn g1) side2\<rparr>)
         else g1)"

definition setEnPassantTarget :: "piece \<Rightarrow> square \<Rightarrow> square \<Rightarrow> game \<Rightarrow> game" where
  "setEnPassantTarget piece src dst g =
     g\<lparr>gameEnPassantTarget :=
         (if snd piece = Pawn \<and> \<bar>fst dst - fst src\<bar> = 2
          then Some (if gameTurn g = White then fst src - 1 else fst src + 1, snd src)
          else None)\<rparr>"

definition capturePiece :: "piece option \<Rightarrow> game \<Rightarrow> game" where
  "capturePiece captured g = (case captured of None \<Rightarrow> g | Some c \<Rightarrow> pushCaptured c g)"

definition recordMove :: "string \<Rightarrow> piece \<Rightarrow> square \<Rightarrow> square \<Rightarrow> piece option \<Rightarrow> game \<Rightarrow> game" where
  "recordMove notation piece src dst captured g =
     (let g1 = g\<lparr>lastMove := Some (src, dst),
                 moveHistory := moveHistory g @
                   [\<lparr>moveNotation = notation, movedPiece = piece, movedFrom = src,
                     movedTo = dst, capturedPiece = captured, boardAfter = gameBoard g\<rparr>]\<rparr>
      in g1\<lparr>gamePositionHistory := gamePositionHistory g1 @
               [getFEN (gameBoard g1) (gameTurn g1) (gameCastlingRights g1)
                  (gameEnPassantTarget g1)]\<rparr>)"

text \<open>
  \<open>hasAnyValidMoves\<close>: the scan over the squares still to visit, left at the first piece
  of the colour that has a legal move.  Like the move generation it runs, it fails where
  the call stack overflows.
\<close>

fun hasAnyValidLoop ::
  "nat \<Rightarrow> castling \<Rightarrow> square option \<Rightarrow> board \<Rightarrow> color \<Rightarrow> square list \<Rightarrow> (bool \<times> board) option" where
  "hasAnyValidLoop k cr ep b c [] = Some (False, b)"
| "hasAnyValidLoop k cr ep b c (s # ss) =
     (case cell b s of
        None \<Rightarrow> hasAnyValidLoop k cr ep b c ss
      | Some piece \<Rightarrow>
          if getPieceColor piece = c then
            (case getValidMovesForPiece k cr ep b (fst s) (snd s) of
               None \<Rightarrow> None
             | Some (moves, b') \<Rightarrow>
                 if moves \<noteq> [] then Some (True, b') else hasAnyValidLoop k cr ep b' c ss)
          else hasAnyValidLoop k cr ep b c ss)"

definition hasAnyValidMoves ::
  "nat \<Rightarrow> castling \<Rightarrow> square option \<Rightarrow> board \<Rightarrow> color \<Rightarrow> (bool \<times> board) option" where
  "hasAnyValidMoves k cr ep b c = hasAnyValidLoop k cr ep b c allSquares"

text \<open>
  \<open>checkGameOver\<close>: the legal-move test and the check test for the side to move, both
  run whatever the first answers; the game-over flag is set when there is no legal move.
  The status line it writes is the page, not the game.
\<close>

definition checkGameOver :: "nat \<Rightarrow> game \<Rightarrow> game option" where
  "checkGameOver k g =
     (case hasAnyValidMoves k (gameCastlingRights g) (gameEnPassantTarget g) (gameBoard g)
             (gameTurn g) of
        None \<Rightarrow> None
      | Some (hasValidMoves, b) \<Rightarrow>
          (case isInCheck k b (gameCastlingRights g) (gameEnPassantTarget g) (gameTurn g) of
             None \<Rightarrow> None
           | Some inCheck \<Rightarrow>
               Some (g\<lparr>gameBoard := b,
                        gameOver := (if hasValidMoves then gameOver g else True)\<rparr>)))"

text \<open>
  \<open>makeMove\<close>, with the call-stack depth \<open>k\<close> that its closing \<open>checkGameOver()\<close> has
  for the move generation; \<open>updateUI()\<close> after it draws the page.  An empty origin square
  fails (\<open>piece.toUpperCase()\<close>), as does an en-passant capture whose pawn row is off the
  board, and a \<open>checkGameOver()\<close> that overflows the stack; callers pass squares of the
  board.
\<close>

definition makeMove :: "nat \<Rightarrow> game \<Rightarrow> square \<Rightarrow> square \<Rightarrow> game option" where
  "makeMove k g src dst =
     (if \<not> (isValidSquare (fst src) (snd src) \<and> isValidSquare (fst dst) (snd dst)) then None
      else
        (case cell (gameBoard g) src of
           None \<Rightarrow> None
         | Some piece \<Rightarrow>
            (let captured = cell (gameBoard g) dst;
                 isEnPassant = (gameEnPassantTarget g = Some dst \<and> snd piece = Pawn);
                 notation = getMoveNotation (gameBoard g) piece src dst
             in
             if isEnPassant \<and>
                \<not> isValidSquare (if gameTurn g = White then fst dst + 1 else fst dst - 1) (snd dst)
             then None
             else
               (let g1 = handleEnPassant piece dst g;
                    g2 = handleCastling piece src dst g1;
                    g3 = movePiece piece src dst g2;
                    g4 = handlePromotion piece dst g3;
                    g5 = updateCastlingRights piece src g4;
                    g6 = setEnPassantTarget piece src dst g5;
                    g7 = capturePiece captured g6;
                    g8 = recordMove notation piece src dst captured g7
                in checkGameOver k (g8\<lparr>gameTurn := opponent (gameTurn g8)\<rparr>)))))"

text \<open>The board \<open>makeMove\<close> leaves, assignment by assignment.\<close>

definition boardAfterMove :: "game \<Rightarrow> piece \<Rightarrow> square \<Rightarrow> square \<Rightarrow> board" where
  "boardAfterMove g piece src dst =
     (let b = gameBoard g;
          b1 = (if gameEnPassantTarget g = Some dst \<and> snd piece = Pawn
                then setCell b (if gameTurn g = White then fst dst + 1 else fst dst - 1, snd dst) None
                else b);
          b2 = (if snd piece = King \<and> \<bar>snd dst - snd src\<bar> = 2
                then setCell
                       (setCell b1 (fst dst, if snd dst > snd src then snd dst - 1 else snd dst + 1)
                          (cell b1 (fst dst, if snd dst > snd src then 7 else 0)))
                       (fst dst, if snd dst > snd src then 7 else 0) None
                else b1);
          b3 = setCell (setCell b2 dst (Some piece)) src None
      in if snd piece = Pawn \<and> (fst dst = 0 \<or> fst dst = 7)
         then setCell b3 dst (Some (gameTurn g, Queen)) else b3)"

section \<open>chess.js: getAISettings\<close>

text \<open>\<open>Math.round\<close> rounds half up.  \<open>aiElo\<close> is set from \<open>parseInt\<close>, an integer.\<close>

definition mathRound :: "real \<Rightarrow> int" where
  "mathRound x = \<lfloor>x + 1 / 2\<rfloor>"

definition lerp :: "real \<Rightarrow> real \<Rightarrow> real \<Rightarrow> real \<Rightarrow> real \<Rightarrow> real" where
  "lerp elo minElo maxElo minVal maxVal =
     (let t = (elo - minElo) / (maxElo - minElo) in minVal + t * (maxVal - minVal))"

definition clampElo :: "int \<Rightarrow> real" where
  "clampElo aiElo = max 500 (min 2200 (real_of_int aiElo))"

definition getAISettings :: "int \<Rightarrow> settings" where
  "getAISettings aiElo =
     (let elo = clampElo aiElo in
      \<lparr> searchDepth = (if elo \<le> 500 then 0 else mathRound (lerp elo 500 2200 1 6)),
        mistakeRate = lerp elo 500 2200 (90 / 100) (2 / 100),
        mistakeSizeCp = mathRound (lerp elo 500 2200 350 100),
        timePerMove = mathRound (lerp elo 500 2200 300 5000),
        maxNodes = mathRound (lerp elo 500 2200 50000 500000),
        positionWeight = lerp elo 500 2200 0 (15 / 10),
        mobilityWeight = lerp elo 500 2200 0 1,
        pawnStructureWeight = lerp elo 500 2200 0 1,
        kingSafetyWeight = lerp elo 500 2200 0 (12 / 10),
        temperature = lerp elo 500 2200 (12 / 10) (3 / 10),
        softmaxWindow = mathRound (lerp elo 500 2200 80 30),
        useQuiescence = (elo \<ge> 1200) \<rparr>)"

text \<open>
  The contract in the specification's words: every parameter is the linear interpolation
  between its low anchor (at rating 500) and its high anchor (at rating 2200), the
  integer-valued ones rounded; the anchors are the documented ones
  (search depth 1 .. 6, mistake rate 0.90 .. 0.02, and so on).
\<close>

definition specSettings :: "real \<Rightarrow> settings" where
  "specSettings elo =
      \<lparr> searchDepth = mathRound (lerp elo 500 2200 1 6),
        mistakeRate = lerp elo 500 2200 (90 / 100) (2 / 100),
        mistakeSizeCp = mathRound (lerp elo 500 2200 350 100),
        timePerMove = mathRound (lerp elo 500 2200 300 5000),
        maxNodes = mathRound (lerp elo 500 2200 50000 500000),
        positionWeight = lerp elo 500 2200 0 (15 / 10),
        mobilityWeight = lerp elo 500 2200 0 1,
        pawnStructureWeight = lerp elo 500 2200 0 1,
        kingSafetyWeight = lerp elo 500 2200 0 (12 / 10),
        temperature = lerp elo 500 2200 (12 / 10) (3 / 10),
        softmaxWindow = mathRound (lerp elo 500 2200 80 30),
        useQuiescence = (elo \<ge> 1200) \<rparr>"

section \<open>Positions and runs used as examples\<close>

definition emptyRow :: "piece option list" where
  "emptyRow = replicate 8 None"

definition noCastling :: castling where
  "noCastling = \<lparr>white = \<lparr>kingside = False, queenside = False\<rparr>,
                  black = \<lparr>kingside = False, queenside = False\<rparr>\<rparr>"

text \<open>Settings with search depth \<open>d\<close> and position weight \<open>pw\<close>: no blunders, no
  quiescence, material (and the piece-square tables when \<open>pw\<close> is not 0) as evaluation.\<close>

definition plainSettings :: "int \<Rightarrow> real \<Rightarrow> settings" where
  "plainSettings d pw =
     \<lparr>searchDepth = d, mistakeRate = 0, mistakeSizeCp = 100, timePerMove = 1000,
      maxNodes = 100000, positionWeight = pw, mobilityWeight = 0, pawnStructureWeight = 0,
      kingSafetyWeight = 0, temperature = 10, softmaxWindow = 50, useQuiescence = False\<rparr>"

text \<open>A run whose clock never reaches the deadline.\<close>

definition plainRun :: "int \<Rightarrow> real \<Rightarrow> run" where
  "plainRun d pw = \<lparr>settingsOf = plainSettings d pw, deadline = 900, now = (\<lambda>n. 0), stackDepth = 2\<rparr>"


definition workerAt :: "board \<Rightarrow> worker" where
  "workerAt b = initialWorker\<lparr>board := b\<rparr>"

text \<open>White: king h1, pawn a2.  Black: king e8, queen b3.\<close>

definition queenEnPrise :: board where
  "queenEnPrise =
     [[None, None, None, None, Some (Black, King), None, None, None],
      emptyRow, emptyRow, emptyRow, emptyRow,
      [None, Some (Black, Queen), None, None, None, None, None, None],
      [Some (White, Pawn), None, None, None, None, None, None, None],
      [None, None, None, None, None, None, None, Some (White, King)]]"


text \<open>White: king e1, rook h1, with the kingside castling right.  Black: king e8, pawn a2
  (one step from promotion).\<close>

definition castlePosition :: board where
  "castlePosition =
     [[None, None, None, None, Some (Black, King), None, None, None],
      emptyRow, emptyRow, emptyRow, emptyRow, emptyRow,
      [Some (Black, Pawn), None, None, None, None, None, None, None],
      [None, None, None, None, Some (White, King), None, None, Some (White, Rook)]]"

definition whiteKingside :: castling where
  "whiteKingside = \<lparr>white = \<lparr>kingside = True, queenside = False\<rparr>,
                     black = \<lparr>kingside = False, queenside = False\<rparr>\<rparr>"

definition castleWorker :: worker where
  "castleWorker = initialWorker\<lparr>board := castlePosition, castlingRights := whiteKingside\<rparr>"

definition castleGame :: game where
  "castleGame =
     \<lparr>gameBoard = castlePosition, gameTurn = White, gameEnPassantTarget = None,
      gameCastlingRights = whiteKingside, capturedWhite = [], capturedBlack = [],
      lastMove = None, moveHistory = [], gamePositionHistory = [], gameOver = False\<rparr>"


text \<open>White: king e1, pawn e5.  Black: king e8, pawn d5, which has just made its double
  step: the en-passant target is d6.\<close>

definition enPassantPosition :: board where
  "enPassantPosition =
     [[None, None, None, None, Some (Black, King), None, None, None],
      emptyRow, emptyRow,
      [None, None, None, Some (Black, Pawn), Some (White, Pawn), None, None, None],
      emptyRow, emptyRow, emptyRow,
      [None, None, None, None, Some (White, King), None, None, None]]"

definition enPassantWorker :: worker where
  "enPassantWorker = initialWorker\<lparr>board := enPassantPosition, enPassantTarget := Some (2, 3)\<rparr>"

definition enPassantGame :: game where
  "enPassantGame =
     \<lparr>gameBoard = enPassantPosition, gameTurn = White, gameEnPassantTarget = Some (2, 3),
      gameCastlingRights = noCastling, capturedWhite = [], capturedBlack = [],
      lastMove = None, moveHistory = [], gamePositionHistory = [], gameOver = False\<rparr>"

text \<open>The castling example with Black to move: the pawn a2 is one step from promotion.\<close>

definition promotionGame :: game where
  "promotionGame = castleGame\<lparr>gameTurn := Black\<rparr>"

text \<open>The castling example after the rook h1 has been captured by a knight that moved
  away again: the corner is empty and the castling right, which only a move of the king
  or of the rook clears, is still there.\<close>

definition rooklessGame :: game where
  "rooklessGame = castleGame\<lparr>gameBoard := setCell castlePosition (7, 7) None\<rparr>"

section \<open>Boards without a king of one colour\<close>

text \<open>No cell of the board holds the king of colour \<open>c\<close>.\<close>

definition kingless :: "color \<Rightarrow> board \<Rightarrow> bool" where
  "kingless c b = list_all (\<lambda>s. cell b s \<noteq> Some (c, King)) allSquares"

definition kinglessPosition :: "color \<Rightarrow> worker \<Rightarrow> bool" where
  "kinglessPosition c w = (wfBoard (board w) \<and> kingless c (board w))"

text \<open>White without a king: pawn a2, rook a1.  Black: king e8, rook h8, with the kingside
  castling right.\<close>

definition whiteKingless :: board where
  "whiteKingless =
     [[None, None, None, None, Some (Black, King), None, None, Some (Black, Rook)],
      emptyRow, emptyRow, emptyRow, emptyRow, emptyRow,
      [Some (White, Pawn), None, None, None, None, None, None, None],
      [Some (White, Rook), None, None, None, None, None, None, None]]"

definition blackKingside :: castling where
  "blackKingside = \<lparr>white = \<lparr>kingside = False, queenside = False\<rparr>,
                     black = \<lparr>kingside = True, queenside = False\<rparr>\<rparr>"

definition kinglessWorker :: worker where
  "kinglessWorker = initialWorker\<lparr>board := whiteKingless, castlingRights := blackKingside\<rparr>"

section \<open>The board under assignments\<close>

lemma nthI_updI:
  "nthI (updI xs i v) j = (if i = j then map_option (\<lambda>_. v) (nthI xs i) else nthI xs j)"
  by (induction xs arbitrary: i j) auto

lemma updI_updI_same: "updI (updI xs i v) i u = updI xs i u"
  by (induction xs arbitrary: i) auto

lemma updI_same: "nthI xs i = Some v \<Longrightarrow> updI xs i v = xs"
  by (induction xs arbitrary: i) (auto split: if_splits)

lemma updI_None: "nthI xs i = None \<Longrightarrow> updI xs i v = xs"
  by (induction xs arbitrary: i) (auto split: if_splits)

lemma updI_comm: "i \<noteq> j \<Longrightarrow> updI (updI xs i v) j u = updI (updI xs j u) i v"
  by (induction xs arbitrary: i j) auto

lemma setCell_same: "setCell (setCell b s v) s u = setCell b s u"
  by (cases "nthI b (fst s)") (simp_all add: setCell_def nthI_updI updI_updI_same)

lemma setCell_cell: "setCell b s (cell b s) = b"
proof (cases "nthI b (fst s)")
  case None
  then show ?thesis by (simp add: setCell_def)
next
  case (Some row)
  show ?thesis
  proof (cases "nthI row (snd s)")
    case None
    with Some show ?thesis by (simp add: setCell_def cell_def updI_None updI_same)
  next
    case (Some x)
    with \<open>nthI b (fst s) = Some row\<close> show ?thesis
      by (simp add: setCell_def cell_def updI_same)
  qed
qed

lemma setCell_comm: "s \<noteq> t \<Longrightarrow> setCell (setCell b s v) t u = setCell (setCell b t u) s v"
proof (cases "fst s = fst t")
  case True
  assume "s \<noteq> t"
  with True have c: "snd s \<noteq> snd t" by (cases s, cases t) auto
  show ?thesis
    by (cases "nthI b (fst t)") (simp_all add: True setCell_def nthI_updI updI_updI_same updI_comm [OF c])
next
  case False
  show ?thesis
    by (cases "nthI b (fst s)"; cases "nthI b (fst t)")
      (simp_all add: False setCell_def nthI_updI updI_comm [OF False] False [symmetric])
qed

lemma restore_board:
  "setCell (setCell (setCell (setCell b t (cell b s)) s None) s (cell b s)) t (cell b t) = b"
proof (cases "s = t")
  case True
  then show ?thesis by (simp add: setCell_same setCell_cell)
next
  case False
  have "setCell (setCell (setCell (setCell b t (cell b s)) s None) s (cell b s)) t (cell b t)
        = setCell (setCell (setCell b t (cell b s)) s (cell b s)) t (cell b t)"
    by (simp add: setCell_same)
  also have "\<dots> = setCell (setCell (setCell b s (cell b s)) t (cell b s)) t (cell b t)"
    using False by (simp add: setCell_comm)
  also have "\<dots> = b"
    by (simp add: setCell_same setCell_cell)
  finally show ?thesis .
qed

declare alphaBetaSearch.simps [simp del]

declare searchLoop.simps [simp del]

declare quiescenceSearch.simps [simp del]

declare quiescenceLoop.simps [simp del]

section \<open>What the search leaves unchanged\<close>

lemma cell_setCell:
  "cell (setCell b s v) t = (if s = t then (if onBoard b s then v else None) else cell b t)"
proof (cases "nthI b (fst s)")
  case None
  then show ?thesis by (auto simp: setCell_def cell_def onBoard_def)
next
  case (Some row)
  then show ?thesis
    by (cases s; cases t; cases "nthI row (snd s)")
       (auto simp: setCell_def cell_def onBoard_def nthI_updI split: option.splits)
qed

lemma wouldBeInCheck_board:
  assumes "wouldBeInCheck k cr ep b src dst = Some (c, b')"
  shows "b' = b"
proof -
  let ?b2 = "setCell (setCell b dst (cell b src)) src None"
  from assms obtain moved where m: "cell ?b2 dst = Some moved"
    and b': "b' = setCell (setCell ?b2 src (cell ?b2 dst)) dst (cell b dst)"
    by (auto simp: wouldBeInCheck_def Let_def split: option.splits)
  from m have "src \<noteq> dst" by (auto simp: cell_setCell split: if_splits)
  with m have "cell ?b2 dst = cell b src" by (auto simp: cell_setCell split: if_splits)
  with b' show ?thesis by (simp add: restore_board)
qed

lemma filterLegal_board:
  "filterLegal k cr ep b src ms = Some (res, b') \<Longrightarrow> b' = b"
proof (induction ms arbitrary: b res)
  case Nil
  then show ?case by simp
next
  case (Cons m ms)
  then show ?case
    by (auto split: option.splits dest!: wouldBeInCheck_board)
qed

lemma getValidMovesForPiece_board:
  "getValidMovesForPiece k cr ep b row col = Some (res, b') \<Longrightarrow> b' = b"
  by (auto simp: getValidMovesForPiece_def split: option.splits dest: filterLegal_board)

lemma allValidLoop_board:
  "allValidLoop k cr ep b c ss = Some (res, b') \<Longrightarrow> b' = b"
proof (induction ss arbitrary: b res)
  case Nil
  then show ?case by simp
next
  case (Cons s ss)
  then show ?case
    by (auto split: option.splits if_splits dest!: getValidMovesForPiece_board)
qed

lemma getAllValidMoves_board:
  "getAllValidMoves k cr ep b c = Some (res, b') \<Longrightarrow> b' = b"
  by (auto simp: getAllValidMoves_def dest: allValidLoop_board)

lemma workerMoves_same: "workerMoves r c w = Some (ms, w') \<Longrightarrow> w' = w"
  by (auto simp: workerMoves_def split: option.splits dest!: getAllValidMoves_board)

lemma evaluateMobility_same: "evaluateMobility r w = Some (v, w') \<Longrightarrow> w' = w"
  by (auto simp: evaluateMobility_def Let_def split: option.splits dest!: workerMoves_same)

lemma evaluatePosition_same: "evaluatePosition r w = Some (v, w') \<Longrightarrow> w' = w"
  by (auto simp: evaluatePosition_def Let_def split: option.splits if_splits dest!: evaluateMobility_same)

lemma sameGame_refl: "sameGame w w"
  by (simp add: sameGame_def)

lemma sameGame_trans: "sameGame w w1 \<Longrightarrow> sameGame w1 w2 \<Longrightarrow> sameGame w w2"
  by (simp add: sameGame_def)

lemma timeUp_sameGame: "timeUp r w = (stop, w') \<Longrightarrow> sameGame w w'"
  by (auto simp: timeUp_def sameGame_def split: if_splits)

lemma deadlinePassed_sameGame: "deadlinePassed r w = (stop, w') \<Longrightarrow> sameGame w w'"
  by (auto simp: deadlinePassed_def sameGame_def split: if_splits)

lemma ttSet_sameGame: "sameGame w (ttSet k e w)"
  by (simp add: ttSet_def sameGame_def)

lemma storeKillerMove_sameGame: "sameGame w (storeKillerMove m ply w)"
  by (simp add: storeKillerMove_def sameGame_def Let_def)

lemma updateHistory_sameGame: "sameGame w (updateHistory m d w)"
  by (simp add: updateHistory_def sameGame_def Let_def)

text \<open>Unmake after make, whatever else the search changed in between.\<close>

lemma unmake_make_sameGame:
  assumes "sameGame (makeStep m w) w4"
  shows "sameGame w (unmakeStep m (cell (board w) (fst m)) (cell (board w) (snd m)) w4)"
proof -
  from assms have b: "board w4 = setCell (setCell (board w) (snd m) (cell (board w) (fst m))) (fst m) None"
    by (simp add: sameGame_def makeStep_def Let_def)
  from assms show ?thesis
    by (simp add: sameGame_def makeStep_def unmakeStep_def Let_def b restore_board)
qed

lemma unmake_make_None:
  "cell (board w) (snd m) = None \<Longrightarrow> unmakeStep m (cell (board w) (fst m)) None (makeStep m w) = w"
  using restore_board [of "board w" "snd m" "fst m"]
  by (simp add: makeStep_def unmakeStep_def Let_def)

lemma tacticalFilter_same: "tacticalFilter r c ms w = Some (res, w') \<Longrightarrow> w' = w"
proof (induction ms arbitrary: w res)
  case Nil
  then show ?case by simp
next
  case (Cons m ms)
  show ?case
  proof (cases "cell (board w) (snd m)")
    case None
    with Cons show ?thesis
      by (auto simp: Let_def unmake_make_None split: option.splits)
  next
    case (Some a)
    with Cons show ?thesis by auto
  qed
qed

lemma quiescenceLoop_sameGame:
  assumes qs: "\<And>a b im w v w'. quiescenceSearch r a b im (Suc qdepth) w = Some (v, w') \<Longrightarrow> sameGame w w'"
  shows "quiescenceLoop r isMaximizing qdepth ms alpha beta w0 = Some (v, w') \<Longrightarrow> sameGame w0 w'"
proof (induction ms arbitrary: alpha beta w0)
  case Nil
  then show ?case by (simp add: quiescenceLoop.simps sameGame_refl)
next
  case (Cons m rest)
  obtain stop w where t: "timeUp r w0 = (stop, w)" by (cases "timeUp r w0")
  then have s0: "sameGame w0 w" by (rule timeUp_sameGame)
  show ?case
  proof (cases stop)
    case True
    with Cons.prems t s0 show ?thesis by (simp add: quiescenceLoop.simps)
  next
    case False
    let ?piece = "cell (board w) (fst m)"
    let ?captured = "cell (board w) (snd m)"
    from Cons.prems t False obtain score w4
      where q: "quiescenceSearch r alpha beta (\<not> isMaximizing) (Suc qdepth) (makeStep m w) = Some (score, w4)"
      by (auto simp: quiescenceLoop.simps Let_def split: option.splits)
    let ?w6 = "unmakeStep m ?piece ?captured w4"
    from q have "sameGame (makeStep m w) w4" by (rule qs)
    then have s6: "sameGame w ?w6" by (rule unmake_make_sameGame)
    from Cons.prems t False q
    have "(w' = ?w6) \<or> (\<exists>a' b'. quiescenceLoop r isMaximizing qdepth rest a' b' ?w6 = Some (v, w'))"
      by (auto simp: quiescenceLoop.simps Let_def split: if_splits)
    then show ?thesis
    proof
      assume "w' = ?w6"
      with s0 s6 show ?thesis by (auto intro: sameGame_trans)
    next
      assume "\<exists>a' b'. quiescenceLoop r isMaximizing qdepth rest a' b' ?w6 = Some (v, w')"
      then obtain a' b' where "quiescenceLoop r isMaximizing qdepth rest a' b' ?w6 = Some (v, w')"
        by blast
      then have "sameGame ?w6 w'" by (rule Cons.IH)
      with s0 s6 show ?thesis by (blast intro: sameGame_trans)
    qed
  qed
qed

lemma quiescenceSearch_sameGame_aux:
  "5 - qdepth \<le> n \<Longrightarrow> quiescenceSearch r alpha beta isMaximizing qdepth w0 = Some (v, w') \<Longrightarrow> sameGame w0 w'"
proof (induction n arbitrary: qdepth alpha beta isMaximizing w0 v w')
  case 0
  then have "qdepth > 4" by simp
  with "0.prems" show ?case
    by (auto simp: quiescenceSearch.simps sameGame_refl dest!: evaluatePosition_same)
next
  case (Suc n)
  show ?case
  proof (cases "qdepth > 4")
    case True
    with Suc.prems show ?thesis
      by (auto simp: quiescenceSearch.simps sameGame_refl dest!: evaluatePosition_same)
  next
    case False
    obtain stop w where t: "timeUp r w0 = (stop, w)" by (cases "timeUp r w0")
    then have s0: "sameGame w0 w" by (rule timeUp_sameGame)
    have loop: "\<And>ms a b v w'. quiescenceLoop r isMaximizing qdepth ms a b w = Some (v, w') \<Longrightarrow> sameGame w w'"
    proof (rule quiescenceLoop_sameGame)
      fix a b im w1 v1 w1'
      assume "quiescenceSearch r a b im (Suc qdepth) w1 = Some (v1, w1')"
      moreover from Suc.prems(1) False have "5 - Suc qdepth \<le> n" by simp
      ultimately show "sameGame w1 w1'" by (rule Suc.IH [rotated])
    qed
    from Suc.prems(2) False t
    have "w' = w \<or> (\<exists>ms a b. quiescenceLoop r isMaximizing qdepth ms a b w = Some (v, w'))"
      by (auto simp: quiescenceSearch.simps Let_def split: if_splits option.splits
               dest!: evaluatePosition_same workerMoves_same tacticalFilter_same)
    with loop s0 show ?thesis by (auto intro: sameGame_trans)
  qed
qed

lemma quiescenceSearch_sameGame:
  "quiescenceSearch r alpha beta isMaximizing qdepth w0 = Some (v, w') \<Longrightarrow> sameGame w0 w'"
  by (rule quiescenceSearch_sameGame_aux [OF le_refl])

lemma cutoff_sameGame:
  "sameGame x (updateHistory m d (if c then storeKillerMove m ply x else x))"
proof (cases c)
  case True
  then show ?thesis
    using sameGame_trans [OF storeKillerMove_sameGame updateHistory_sameGame] by simp
next
  case False
  then show ?thesis by (simp add: updateHistory_sameGame)
qed

lemma searchLoop_sameGame:
  assumes ab: "\<And>a b im p w v w'. alphaBetaSearch r childDepth a b im p w = Some (v, w') \<Longrightarrow> sameGame w w'"
  shows "searchLoop r childDepth isMaximizing ply ms alpha beta best bm w0 = Some (v, bm', w') \<Longrightarrow>
         sameGame w0 w'"
proof (induction ms arbitrary: alpha beta best bm w0)
  case Nil
  then show ?case by (simp add: searchLoop.simps sameGame_refl)
next
  case (Cons m rest)
  obtain stop w where t: "timeUp r w0 = (stop, w)" by (cases "timeUp r w0")
  then have s0: "sameGame w0 w" by (rule timeUp_sameGame)
  show ?case
  proof (cases stop)
    case True
    with Cons.prems t s0 show ?thesis by (simp add: searchLoop.simps)
  next
    case False
    let ?piece = "cell (board w) (fst m)"
    let ?captured = "cell (board w) (snd m)"
    from Cons.prems t False obtain evaluation w4
      where q: "alphaBetaSearch r childDepth alpha beta (\<not> isMaximizing) (Suc ply) (makeStep m w) = Some (evaluation, w4)"
      by (auto simp: searchLoop.simps Let_def split: option.splits)
    let ?w6 = "unmakeStep m ?piece ?captured w4"
    from q have "sameGame (makeStep m w) w4" by (rule ab)
    then have s6: "sameGame w ?w6" by (rule unmake_make_sameGame)
    from Cons.prems t False q
    have "(w' = updateHistory m (Suc childDepth) (if ?captured = None then storeKillerMove m ply ?w6 else ?w6))
          \<or> (\<exists>a' b' best' bm1. searchLoop r childDepth isMaximizing ply rest a' b' best' bm1 ?w6 = Some (v, bm', w'))"
      by (auto simp: searchLoop.simps Let_def split: if_splits)
    then show ?thesis
    proof
      assume "w' = updateHistory m (Suc childDepth) (if ?captured = None then storeKillerMove m ply ?w6 else ?w6)"
      then have "sameGame ?w6 w'" by (simp only: cutoff_sameGame)
      with s0 s6 show ?thesis by (blast intro: sameGame_trans)
    next
      assume "\<exists>a' b' best' bm1. searchLoop r childDepth isMaximizing ply rest a' b' best' bm1 ?w6 = Some (v, bm', w')"
      then obtain a' b' best' bm1
        where "searchLoop r childDepth isMaximizing ply rest a' b' best' bm1 ?w6 = Some (v, bm', w')"
        by blast
      then have "sameGame ?w6 w'" by (rule Cons.IH)
      with s0 s6 show ?thesis by (blast intro: sameGame_trans)
    qed
  qed
qed

lemma ttSet_sameGame_after: "sameGame w w1 \<Longrightarrow> sameGame w (ttSet k e w1)"
  by (simp add: ttSet_def sameGame_def)

lemma alphaBetaSearch_sameGame:
  "alphaBetaSearch r depth alpha beta isMaximizing ply w0 = Some (v, w') \<Longrightarrow> sameGame w0 w'"
proof (induction depth arbitrary: alpha beta isMaximizing ply w0 v w')
  case 0
  let ?w1 = "w0\<lparr>nodesSearched := nodesSearched w0 + 1\<rparr>"
  obtain stop w where t: "timeUp r ?w1 = (stop, w)" by (cases "timeUp r ?w1")
  then have "sameGame ?w1 w" by (rule timeUp_sameGame)
  then have s0: "sameGame w0 w" by (simp add: sameGame_def)
  from "0.prems" t
  have "sameGame w w'"
    by (auto simp: alphaBetaSearch.simps Let_def sameGame_refl split: if_splits option.splits
             dest!: evaluatePosition_same quiescenceSearch_sameGame
             intro!: ttSet_sameGame_after)
  with s0 show ?case
    by (rule sameGame_trans)
next
  case (Suc d)
  let ?w1 = "w0\<lparr>nodesSearched := nodesSearched w0 + 1\<rparr>"
  obtain stop w where t: "timeUp r ?w1 = (stop, w)" by (cases "timeUp r ?w1")
  then have "sameGame ?w1 w" by (rule timeUp_sameGame)
  then have s0: "sameGame w0 w" by (simp add: sameGame_def)
  have loop: "\<And>im p ms a b best bm v bm' w'.
      searchLoop r d im p ms a b best bm w = Some (v, bm', w') \<Longrightarrow> sameGame w w'"
    by (rule searchLoop_sameGame) (rule Suc.IH)
  from Suc.prems t
  have "sameGame w w'"
    by (auto simp: alphaBetaSearch.simps Let_def sameGame_refl split: if_splits option.splits
             dest!: workerMoves_same loop
             intro!: ttSet_sameGame_after)
  with s0 show ?case
    by (rule sameGame_trans)
qed

lemma rootLoop_sameGame:
  "rootLoop r depth ms dbm dbs scores w0 = Some (dbm', dbs', scores', w') \<Longrightarrow> sameGame w0 w'"
proof (induction ms arbitrary: dbm dbs scores w0)
  case Nil
  then show ?case by (simp add: sameGame_refl)
next
  case (Cons m rest)
  obtain stop w where t: "deadlinePassed r w0 = (stop, w)" by (cases "deadlinePassed r w0")
  then have s0: "sameGame w0 w" by (rule deadlinePassed_sameGame)
  show ?case
  proof (cases "stop \<or> nodesSearched w > maxNodes (settingsOf r)")
    case True
    with Cons.prems t have "w' = w \<or> w' = w\<lparr>forceTimeout := True\<rparr>"
      by (auto split: if_splits)
    with s0 show ?thesis by (auto simp: sameGame_def)
  next
    case False
    from Cons.prems t False obtain x w4
      where q: "alphaBetaSearch r (depth - 1) NegInf PosInf False 0 (makeStep m w) = Some (x, w4)"
      by (auto simp: Let_def split: option.splits)
    let ?w6 = "unmakeStep m (cell (board w) (fst m)) (cell (board w) (snd m)) w4"
    from q have "sameGame (makeStep m w) w4" by (rule alphaBetaSearch_sameGame)
    then have s6: "sameGame w ?w6" by (rule unmake_make_sameGame)
    from Cons.prems t False q
    obtain dbm1 dbs1 scores1 where
      "rootLoop r depth rest dbm1 dbs1 scores1 ?w6 = Some (dbm', dbs', scores', w')"
      by (auto simp: Let_def)
    then have "sameGame ?w6 w'" by (rule Cons.IH)
    with s0 s6 show ?thesis by (blast intro: sameGame_trans)
  qed
qed

lemma deepen_sameGame:
  "deepen r depths moves bm bs cd ams w0 = Some (bm', bs', cd', ams', w') \<Longrightarrow> sameGame w0 w'"
proof (induction depths arbitrary: bm bs cd ams w0)
  case Nil
  then show ?case by (simp add: sameGame_refl)
next
  case (Cons depth depths)
  obtain stop w where t: "deadlinePassed r w0 = (stop, w)" by (cases "deadlinePassed r w0")
  then have s0: "sameGame w0 w" by (rule deadlinePassed_sameGame)
  show ?case
  proof (cases stop)
    case True
    with Cons.prems t s0 show ?thesis by simp
  next
    case False
    from Cons.prems t False obtain om where o: "orderMoves w moves (Some bm) 0 = Some om"
      by (auto split: option.splits)
    from Cons.prems t False o obtain dbm dbs dms w1
      where rl: "rootLoop r depth om None NegInf [] w = Some (dbm, dbs, dms, w1)"
      by (auto split: option.splits)
    then have s1: "sameGame w w1" by (rule rootLoop_sameGame)
    let ?w2 = "w1\<lparr>clockReads := Suc (clockReads w1)\<rparr>"
    let ?w3 = "?w2\<lparr>posted := posted ?w2 @ [(depth, nodesSearched ?w2, dbs)]\<rparr>"
    have g: "sameGame w1 w1" "sameGame w1 ?w2" "sameGame w1 ?w3"
      by (simp_all add: sameGame_def)
    from Cons.prems t False o rl
    have "sameGame w1 w' \<or> sameGame ?w2 w' \<or> sameGame ?w3 w'"
      by (auto simp: Let_def split: option.splits if_splits dest!: Cons.IH)
    with g have "sameGame w1 w'"
      by (blast intro: sameGame_trans)
    with s0 s1 show ?thesis by (blast intro: sameGame_trans)
  qed
qed

section \<open>Well-formed boards\<close>

lemma nthI_None_iff: "nthI xs i = None \<longleftrightarrow> i < 0 \<or> i \<ge> int (length xs)"
  by (induction xs arbitrary: i) auto

lemma length_updI: "length (updI xs i v) = length xs"
  by (induction xs arbitrary: i) auto

lemma nthI_in_set: "nthI xs i = Some x \<Longrightarrow> x \<in> set xs"
  by (induction xs arbitrary: i) (auto split: if_splits)

lemma set_updI: "set (updI xs i v) \<subseteq> insert v (set xs)"
  by (induction xs arbitrary: i) auto

lemma onBoard_wf: "wfBoard b \<Longrightarrow> onBoard b s = isValidSquare (fst s) (snd s)"
proof -
  assume w: "wfBoard b"
  show ?thesis
  proof (cases "nthI b (fst s)")
    case None
    then have "onBoard b s = False" by (simp add: onBoard_def)
    moreover from None w have "fst s < 0 \<or> fst s \<ge> 8"
      by (simp add: nthI_None_iff wfBoard_def)
    ultimately show ?thesis by (auto simp: isValidSquare_def)
  next
    case (Some row)
    then have "row \<in> set b" by (rule nthI_in_set)
    with w have l: "length row = 8" by (simp add: wfBoard_def list_all_iff)
    from Some have "nthI b (fst s) \<noteq> None" by simp
    with w have "0 \<le> fst s \<and> fst s < 8" by (simp add: nthI_None_iff wfBoard_def)
    with Some l show ?thesis
      by (auto simp: onBoard_def isValidSquare_def nthI_None_iff)
  qed
qed

lemma wfBoard_setCell: "wfBoard b \<Longrightarrow> wfBoard (setCell b s v)"
proof -
  assume w: "wfBoard b"
  show ?thesis
  proof (cases "nthI b (fst s)")
    case None
    with w show ?thesis by (simp add: setCell_def)
  next
    case (Some row)
    then have "row \<in> set b" by (rule nthI_in_set)
    with w have l: "length (updI row (snd s) v) = 8"
      by (simp add: wfBoard_def list_all_iff length_updI)
    from w l Some show ?thesis
      using set_updI [of b "fst s" "updI row (snd s) v"]
      by (auto simp: setCell_def wfBoard_def list_all_iff length_updI)
  qed
qed

lemma cell_off_board: "\<not> onBoard b s \<Longrightarrow> cell b s = None"
  by (auto simp: cell_def onBoard_def split: option.splits)

lemma cell_setCell_wf:
  "wfBoard b \<Longrightarrow>
   cell (setCell b s v) t = (if s = t \<and> isValidSquare (fst s) (snd s) then v else cell b t)"
  using cell_off_board [of b t] by (auto simp: cell_setCell onBoard_wf)

lemma cell_Some_valid: "wfBoard b \<Longrightarrow> cell b s = Some p \<Longrightarrow> isValidSquare (fst s) (snd s)"
  using onBoard_wf [of b s] by (auto simp: cell_def onBoard_def split: option.splits)

section \<open>makeMove, block by block\<close>

lemma pushCaptured_fields:
  "gameBoard (pushCaptured p g) = gameBoard g" "gameTurn (pushCaptured p g) = gameTurn g"
  "gameEnPassantTarget (pushCaptured p g) = gameEnPassantTarget g"
  by (simp_all add: pushCaptured_def)

lemma handleEnPassant_fields:
  "gameTurn (handleEnPassant piece dst g) = gameTurn g"
  "gameBoard (handleEnPassant piece dst g) =
     (if gameEnPassantTarget g = Some dst \<and> snd piece = Pawn
      then setCell (gameBoard g) (if gameTurn g = White then fst dst + 1 else fst dst - 1, snd dst) None
      else gameBoard g)"
  by (simp_all add: handleEnPassant_def Let_def pushCaptured_fields split: option.splits)

lemma handleCastling_fields:
  "gameTurn (handleCastling piece src dst g) = gameTurn g"
  "gameBoard (handleCastling piece src dst g) =
     (if snd piece = King \<and> \<bar>snd dst - snd src\<bar> = 2
      then setCell
             (setCell (gameBoard g) (fst dst, if snd dst > snd src then snd dst - 1 else snd dst + 1)
                (cell (gameBoard g) (fst dst, if snd dst > snd src then 7 else 0)))
             (fst dst, if snd dst > snd src then 7 else 0) None
      else gameBoard g)"
  by (simp_all add: handleCastling_def Let_def)

lemma movePiece_fields:
  "gameTurn (movePiece piece src dst g) = gameTurn g"
  "gameBoard (movePiece piece src dst g) = setCell (setCell (gameBoard g) dst (Some piece)) src None"
  by (simp_all add: movePiece_def)

lemma handlePromotion_fields:
  "gameTurn (handlePromotion piece dst g) = gameTurn g"
  "gameBoard (handlePromotion piece dst g) =
     (if snd piece = Pawn \<and> (fst dst = 0 \<or> fst dst = 7)
      then setCell (gameBoard g) dst (Some (gameTurn g, Queen)) else gameBoard g)"
  by (auto simp: handlePromotion_def)

lemma later_fields:
  "gameBoard (updateCastlingRights piece src g) = gameBoard g"
  "gameBoard (setEnPassantTarget piece src dst g) = gameBoard g"
  "gameBoard (capturePiece captured g) = gameBoard g"
  "gameBoard (recordMove notation piece src dst captured g) = gameBoard g"
  by (simp_all add: updateCastlingRights_def setEnPassantTarget_def capturePiece_def
        recordMove_def Let_def pushCaptured_fields split: option.splits)

lemma hasAnyValidLoop_board:
  "hasAnyValidLoop k cr ep b c ss = Some (res, b') \<Longrightarrow> b' = b"
proof (induction ss arbitrary: b res)
  case Nil
  then show ?case by simp
next
  case (Cons s ss)
  then show ?case
    by (auto split: option.splits if_splits dest!: getValidMovesForPiece_board)
qed

lemma checkGameOver_board:
  "checkGameOver k g = Some g' \<Longrightarrow> gameBoard g' = gameBoard g"
  by (auto simp: checkGameOver_def hasAnyValidMoves_def split: option.splits
        dest!: hasAnyValidLoop_board)

lemma makeMove_board:
  assumes "makeMove k g src dst = Some g'" and "cell (gameBoard g) src = Some piece"
  shows "gameBoard g' = boardAfterMove g piece src dst"
proof -
  let ?g8 = "recordMove (getMoveNotation (gameBoard g) piece src dst) piece src dst
                      (cell (gameBoard g) dst)
                      (capturePiece (cell (gameBoard g) dst)
                        (setEnPassantTarget piece src dst
                          (updateCastlingRights piece src
                            (handlePromotion piece dst
                              (movePiece piece src dst
                                (handleCastling piece src dst (handleEnPassant piece dst g)))))))"
  from assms have "checkGameOver k (?g8\<lparr>gameTurn := opponent (gameTurn ?g8)\<rparr>) = Some g'"
    by (simp add: makeMove_def Let_def split: if_splits)
  then have "gameBoard g' = gameBoard (?g8\<lparr>gameTurn := opponent (gameTurn ?g8)\<rparr>)"
    by (rule checkGameOver_board)
  then show ?thesis
    by (auto simp: Let_def boardAfterMove_def later_fields handlePromotion_fields movePiece_fields
          handleCastling_fields handleEnPassant_fields)
qed


lemma castle_kingside_cells:
  fixes b :: board and piece :: piece
  assumes w: "wfBoard b" and v: "isValidSquare sr sc" "isValidSquare dr dc" and d: "dc = sc + 2"
  defines "b2 \<equiv> setCell (setCell b (dr, dc - 1) (cell b (dr, 7))) (dr, 7) None"
  defines "b3 \<equiv> setCell (setCell b2 (dr, dc) (Some piece)) (sr, sc) None"
  shows "cell b3 (dr, dc) = Some piece" "cell b3 (dr, dc - 1) = cell b (dr, 7)"
    "dc \<noteq> 7 \<Longrightarrow> cell b3 (dr, 7) = None"
proof -
  from v d have r: "0 \<le> sc" "dc \<le> 7" "0 \<le> dr" "dr < 8" "0 \<le> sr" "sr < 8"
    by (simp_all add: isValidSquare_def)
  show "cell b3 (dr, dc) = Some piece"
    using r d by (simp add: b3_def b2_def cell_setCell_wf wfBoard_setCell w isValidSquare_def)
  show "cell b3 (dr, dc - 1) = cell b (dr, 7)"
    using r d by (simp add: b3_def b2_def cell_setCell_wf wfBoard_setCell w isValidSquare_def)
  show "dc \<noteq> 7 \<Longrightarrow> cell b3 (dr, 7) = None"
    using r d by (simp add: b3_def b2_def cell_setCell_wf wfBoard_setCell w isValidSquare_def)
qed

lemma castle_queenside_cells:
  fixes b :: board and piece :: piece
  assumes w: "wfBoard b" and v: "isValidSquare sr sc" "isValidSquare dr dc" and d: "sc = dc + 2"
  defines "b2 \<equiv> setCell (setCell b (dr, dc + 1) (cell b (dr, 0))) (dr, 0) None"
  defines "b3 \<equiv> setCell (setCell b2 (dr, dc) (Some piece)) (sr, sc) None"
  shows "cell b3 (dr, dc) = Some piece" "cell b3 (dr, dc + 1) = cell b (dr, 0)"
    "dc \<noteq> 0 \<Longrightarrow> cell b3 (dr, 0) = None"
proof -
  from v d have r: "0 \<le> dc" "sc \<le> 7" "0 \<le> dr" "dr < 8" "0 \<le> sr" "sr < 8"
    by (simp_all add: isValidSquare_def)
  show "cell b3 (dr, dc) = Some piece"
    using r d by (simp add: b3_def b2_def cell_setCell_wf wfBoard_setCell w isValidSquare_def)
  show "cell b3 (dr, dc + 1) = cell b (dr, 0)"
    using r d by (simp add: b3_def b2_def cell_setCell_wf wfBoard_setCell w isValidSquare_def)
  show "dc \<noteq> 0 \<Longrightarrow> cell b3 (dr, 0) = None"
    using r d by (simp add: b3_def b2_def cell_setCell_wf wfBoard_setCell w isValidSquare_def)
qed

section \<open>Move generation and search when one colour has no king\<close>

lemma color_cases: "getPieceColor p \<noteq> opponent c \<Longrightarrow> getPieceColor p = c"
  by (cases c; cases "getPieceColor p") (auto simp: opponent_def)

lemma kingless_not_king:
  "kingless c b \<Longrightarrow> s \<in> set allSquares \<Longrightarrow> cell b s = Some p \<Longrightarrow> getPieceColor p = c \<Longrightarrow>
   snd p \<noteq> King"
  by (cases p) (auto simp: kingless_def list_all_iff getPieceColor_def)

lemma attackScan_total:
  assumes "\<And>s p. s \<in> set ss \<Longrightarrow> cell b s = Some p \<Longrightarrow> getPieceColor p \<noteq> d \<Longrightarrow>
             raw (fst s) (snd s) \<noteq> None"
  shows "attackScan raw b row col d ss \<noteq> None"
  using assms
proof (induction ss)
  case Nil
  then show ?case by simp
next
  case (Cons s ss)
  then have ih: "attackScan raw b row col d ss \<noteq> None" by simp
  show ?case
  proof (cases "cell b s")
    case None
    with ih show ?thesis by simp
  next
    case (Some p)
    show ?thesis
    proof (cases "getPieceColor p = d")
      case True
      with Some ih show ?thesis by simp
    next
      case False
      with Some Cons.prems [of s p] have "raw (fst s) (snd s) \<noteq> None" by simp
      with Some False ih show ?thesis by auto
    qed
  qed
qed

lemma attackScan_undefined:
  assumes "\<And>s p. s \<in> set ss \<Longrightarrow> cell b s = Some p \<Longrightarrow> getPieceColor p \<noteq> d \<Longrightarrow>
             raw (fst s) (snd s) \<noteq> None"
  shows "attackScan raw b None None d ss = Some False"
  using assms
proof (induction ss)
  case Nil
  then show ?case by simp
next
  case (Cons s ss)
  then have ih: "attackScan raw b None None d ss = Some False" by simp
  show ?case
  proof (cases "cell b s")
    case None
    with ih show ?thesis by simp
  next
    case (Some p)
    show ?thesis
    proof (cases "getPieceColor p = d")
      case True
      with Some ih show ?thesis by simp
    next
      case False
      with Some Cons.prems [of s p] have "raw (fst s) (snd s) \<noteq> None" by simp
      with Some False ih show ?thesis by (auto simp: list_ex_iff)
    qed
  qed
qed

lemma getRawMovesWith_other:
  "cell b (row, col) = Some p \<Longrightarrow> snd p \<noteq> King \<Longrightarrow> getRawMovesWith att b cr ep row col \<noteq> None"
  by (cases "snd p") (auto simp: getRawMovesWith_def)

lemma castleClear_total:
  assumes "\<And>col. att row col c \<noteq> None"
  shows "castleClear att row c cols \<noteq> None"
proof -
  have "foldl (\<lambda>acc col. case acc of None \<Rightarrow> None | Some False \<Rightarrow> Some False
                | Some True \<Rightarrow> map_option Not (att row col c)) (Some x) cols \<noteq> None" for x
  proof (induction cols arbitrary: x)
    case Nil
    then show ?case by simp
  next
    case (Cons col cols)
    from assms [of col] obtain y where "att row col c = Some y" by (cases "att row col c") auto
    with Cons show ?case by (cases x) auto
  qed
  then show ?thesis by (simp add: castleClear_def)
qed

lemma getKingMovesWith_total:
  assumes "cell b (row, col) = Some p" and "\<And>r' c'. att r' c' (getPieceColor p) \<noteq> None"
  shows "getKingMovesWith att b cr row col \<noteq> None"
proof -
  have a: "castleClear att row (getPieceColor p) cols \<noteq> None" for cols
    by (rule castleClear_total) (rule assms(2))
  from a [of "[4, 5, 6]"] a [of "[4, 3, 2]"] assms(1) show ?thesis
    by (auto simp: getKingMovesWith_def Let_def split: option.splits)
qed

lemma getRawMovesWith_total:
  assumes "cell b (row, col) = Some p" and "\<And>r' c'. att r' c' (getPieceColor p) \<noteq> None"
  shows "getRawMovesWith att b cr ep row col \<noteq> None"
proof (cases "snd p = King")
  case True
  have "getKingMovesWith att b cr row col \<noteq> None"
    using assms(1) by (rule getKingMovesWith_total) (rule assms(2))
  with assms(1) True show ?thesis
    by (auto simp: getRawMovesWith_def)
next
  case False
  with assms(1) show ?thesis by (rule getRawMovesWith_other)
qed

lemma isSquareUnderAttack_by_kingless:
  assumes "kingless c b"
  shows "isSquareUnderAttack (Suc k) b cr ep row col (opponent c) \<noteq> None"
proof -
  let ?raw = "getRawMovesWith (\<lambda>r c d. isSquareUnderAttack k b cr ep (Some r) (Some c) d) b cr ep"
  have r: "?raw (fst s) (snd s) \<noteq> None"
    if s: "s \<in> set allSquares" and p: "cell b s = Some p" and o: "getPieceColor p \<noteq> opponent c"
    for s p
  proof -
    from o have "getPieceColor p = c" by (rule color_cases)
    with assms s p have "snd p \<noteq> King" by (rule kingless_not_king)
    moreover from p have "cell b (fst s, snd s) = Some p" by simp
    ultimately show ?thesis by (rule getRawMovesWith_other [rotated])
  qed
  have "attackScan ?raw b row col (opponent c) allSquares \<noteq> None"
    using r by (rule attackScan_total [of allSquares b "opponent c" ?raw row col])
  then show ?thesis by (subst isSquareUnderAttack.simps(2))
qed

lemma raw_total:
  assumes "kingless c b" and "s \<in> set allSquares" and "cell b s = Some p"
  shows "getRawMovesWith (\<lambda>r c d. isSquareUnderAttack (Suc k) b cr ep (Some r) (Some c) d) b cr ep
            (fst s) (snd s) \<noteq> None"
proof (cases "getPieceColor p = c")
  case True
  with assms have "snd p \<noteq> King" by (rule kingless_not_king)
  moreover from assms(3) have "cell b (fst s, snd s) = Some p" by simp
  ultimately show ?thesis by (rule getRawMovesWith_other [rotated])
next
  case False
  then have o: "getPieceColor p = opponent c"
    by (cases c; cases "getPieceColor p") (auto simp: opponent_def)
  let ?att = "\<lambda>r c d. isSquareUnderAttack (Suc k) b cr ep (Some r) (Some c) d"
  have c: "cell b (fst s, snd s) = Some p" using assms(3) by simp
  have a: "?att r' c' (getPieceColor p) \<noteq> None" for r' c'
    unfolding o using assms(1) by (rule isSquareUnderAttack_by_kingless)
  from c a show ?thesis
    by (rule getRawMovesWith_total [of b "fst s" "snd s" p ?att cr ep])
qed

lemma isSquareUnderAttack_total:
  assumes "kingless c b"
  shows "isSquareUnderAttack (Suc (Suc k)) b cr ep row col d \<noteq> None"
proof -
  let ?raw = "getRawMovesWith (\<lambda>r c d. isSquareUnderAttack (Suc k) b cr ep (Some r) (Some c) d) b cr ep"
  have r: "?raw (fst s) (snd s) \<noteq> None" if "s \<in> set allSquares" and "cell b s = Some p" for s p
    using assms that by (rule raw_total)
  have "attackScan ?raw b row col d allSquares \<noteq> None"
    using r by (rule attackScan_total [of allSquares b d ?raw row col])
  then show ?thesis by (subst isSquareUnderAttack.simps(2))
qed

lemma isSquareUnderAttack_undefined:
  assumes "kingless c b"
  shows "isSquareUnderAttack (Suc (Suc k)) b cr ep None None d = Some False"
proof -
  let ?raw = "getRawMovesWith (\<lambda>r c d. isSquareUnderAttack (Suc k) b cr ep (Some r) (Some c) d) b cr ep"
  have r: "?raw (fst s) (snd s) \<noteq> None" if "s \<in> set allSquares" and "cell b s = Some p" for s p
    using assms that by (rule raw_total)
  have "attackScan ?raw b None None d allSquares = Some False"
    using r by (rule attackScan_undefined [of allSquares b d ?raw])
  then show ?thesis by (subst isSquareUnderAttack.simps(2))
qed

lemma findKing_kingless:
  assumes "kingless c b"
  shows "findKing b c = None"
proof -
  have f: "find (\<lambda>col. cell b (row, col) = Some (c, King)) idx8 = None" if "row \<in> set idx8" for row
  proof -
    from that have "\<forall>col \<in> set idx8. (row, col) \<in> set allSquares"
      by (auto simp: allSquares_def)
    with assms show ?thesis
      by (auto simp: find_None_iff kingless_def list_all_iff)
  qed
  have "foldl (\<lambda>acc row. case find (\<lambda>col. cell b (row, col) = Some (c, King)) idx8 of
                  None \<Rightarrow> acc | Some col \<Rightarrow> Some (row, col)) None rows = None"
    if "set rows \<subseteq> set idx8" for rows
    using that by (induction rows) (auto simp: f)
  then show ?thesis by (simp add: findKing_def)
qed

lemma isInCheck_kingless:
  assumes "kingless c b"
  shows "isInCheck (Suc (Suc k)) b cr ep c = Some False"
  using isSquareUnderAttack_undefined [OF assms, of k cr ep c]
  by (simp only: isInCheck_def findKing_kingless [OF assms] Let_def option.map)

lemma isInCheck_total:
  assumes "kingless c b"
  shows "isInCheck (Suc (Suc k)) b cr ep d \<noteq> None"
  using isSquareUnderAttack_total [OF assms]
  by (simp add: isInCheck_def Let_def del: isSquareUnderAttack.simps)

lemma valid_allSquares: "isValidSquare r c \<Longrightarrow> (r, c) \<in> set allSquares"
proof -
  have i: "0 \<le> x \<Longrightarrow> x < 8 \<Longrightarrow> x \<in> set idx8" for x :: int
    unfolding idx8_def by (simp; presburger)
  assume "isValidSquare r c"
  then have "r \<in> set idx8" "c \<in> set idx8"
    by (simp_all add: isValidSquare_def i)
  then show ?thesis by (auto simp: allSquares_def)
qed

lemma kingless_all:
  assumes "wfBoard b" and "kingless c b"
  shows "cell b s \<noteq> Some (c, King)"
proof
  assume k: "cell b s = Some (c, King)"
  with assms(1) have "isValidSquare (fst s) (snd s)" by (rule cell_Some_valid)
  then have "(fst s, snd s) \<in> set allSquares" by (rule valid_allSquares)
  with assms(2) k show False by (simp add: kingless_def list_all_iff)
qed

lemma kingless_setCell:
  assumes "wfBoard b" and "kingless c b" and "v \<noteq> Some (c, King)"
  shows "kingless c (setCell b s v)"
  using assms by (auto simp: kingless_def list_all_iff cell_setCell_wf)

lemma kingless_move:
  assumes "wfBoard b" and "kingless c b"
  shows "kingless c (setCell (setCell b dst (cell b src)) src None)"
proof -
  from assms have "cell b src \<noteq> Some (c, King)" by (rule kingless_all)
  with assms have "kingless c (setCell b dst (cell b src))" by (rule kingless_setCell)
  with wfBoard_setCell [OF assms(1)] show ?thesis by (rule kingless_setCell) simp
qed

lemma stepMoves_good:
  assumes "cell b (row, col) = Some p" and "m \<in> set (stepMoves b row col offs)"
  shows "isValidSquare (fst m) (snd m) \<and> m \<noteq> (row, col)"
proof -
  obtain pc pk where "p = (pc, pk)" by (cases p)
  with assms show ?thesis
    by (auto simp: stepMoves_def Let_def split: if_splits option.splits)
qed

lemma ray_good:
  assumes "cell b src = Some piece"
  shows "m \<in> set (ray n b piece r c dr dc) \<Longrightarrow> isValidSquare (fst m) (snd m) \<and> m \<noteq> src"
proof (induction n arbitrary: r c)
  case 0
  then show ?case by simp
next
  case (Suc n)
  then show ?case using assms
    by (auto split: if_splits option.splits)
qed

lemma getSlidingMoves_good:
  assumes "cell b (row, col) = Some p" and "m \<in> set (getSlidingMoves b row col dirs)"
  shows "isValidSquare (fst m) (snd m) \<and> m \<noteq> (row, col)"
proof -
  from assms obtain dr dc where "m \<in> set (ray 8 b p (row + dr) (col + dc) dr dc)"
    by (auto simp: getSlidingMoves_def)
  with assms(1) show ?thesis by (rule ray_good)
qed

lemma getPawnMoves_good:
  assumes "cell b (row, col) = Some p" and "m \<in> set (getPawnMoves b ep row col)"
  shows "isValidSquare (fst m) (snd m) \<and> m \<noteq> (row, col)"
  using assms
  by (auto simp: getPawnMoves_def Let_def isValidSquare_def split: if_splits option.splits)

lemma getKingMovesWith_good:
  assumes "wfBoard b" and "cell b (row, col) = Some p"
    and "getKingMovesWith att b cr row col = Some ms" and "m \<in> set ms"
  shows "isValidSquare (fst m) (snd m) \<and> m \<noteq> (row, col)"
proof -
  from assms(1,2) have v: "isValidSquare row col"
    using cell_Some_valid [of b "(row, col)" p] by simp
  let ?steps = "stepMoves b row col
                 [(- 1, - 1), (- 1, 0), (- 1, 1), (0, - 1), (0, 1), (1, - 1), (1, 0), (1, 1)]"
  from assms(2,3,4) have "m \<in> set ?steps \<or> (m = (row, 6) \<and> cell b (row, 6) = None)
      \<or> (m = (row, 2) \<and> cell b (row, 2) = None)"
    by (auto simp: getKingMovesWith_def Let_def split: option.splits if_splits)
  then show ?thesis
  proof (elim disjE)
    assume "m \<in> set ?steps"
    with assms(2) show ?thesis by (rule stepMoves_good)
  next
    assume "m = (row, 6) \<and> cell b (row, 6) = None"
    with v assms(2) show ?thesis by (auto simp: isValidSquare_def)
  next
    assume "m = (row, 2) \<and> cell b (row, 2) = None"
    with v assms(2) show ?thesis by (auto simp: isValidSquare_def)
  qed
qed

lemma wouldBeInCheck_total:
  assumes w: "wfBoard b" and k: "kingless c b" and p: "cell b src = Some p"
    and v: "isValidSquare (fst dst) (snd dst)" and n: "dst \<noteq> src"
  shows "\<exists>x. wouldBeInCheck (Suc (Suc j)) cr ep b src dst = Some (x, b) \<and> (getPieceColor p = c \<longrightarrow> \<not> x)"
proof -
  let ?b2 = "setCell (setCell b dst (cell b src)) src None"
  have m: "cell ?b2 dst = Some p"
    using v n p by (simp add: cell_setCell_wf wfBoard_setCell w)
  have k2: "kingless c ?b2" using w k by (rule kingless_move)
  from k2 obtain x where x: "isInCheck (Suc (Suc j)) ?b2 cr ep (getPieceColor p) = Some x"
    using isInCheck_total [of c ?b2 j cr ep "getPieceColor p"] by auto
  from m x obtain b' where r: "wouldBeInCheck (Suc (Suc j)) cr ep b src dst = Some (x, b')"
    by (simp add: wouldBeInCheck_def Let_def)
  then have "b' = b" by (rule wouldBeInCheck_board)
  moreover have "\<not> x" if "getPieceColor p = c"
    using x isInCheck_kingless [OF k2, of j cr ep] that by simp
  ultimately show ?thesis using r by blast
qed

lemma filterLegal_total:
  assumes w: "wfBoard b" and k: "kingless c b" and p: "cell b src = Some p"
  shows "(\<And>m. m \<in> set ms \<Longrightarrow> isValidSquare (fst m) (snd m) \<and> m \<noteq> src) \<Longrightarrow>
     \<exists>res. filterLegal (Suc (Suc j)) cr ep b src ms = Some (res, b) \<and>
           (getPieceColor p = c \<longrightarrow> res = ms)"
proof (induction ms)
  case Nil
  then show ?case by simp
next
  case (Cons m ms)
  then obtain res where f: "filterLegal (Suc (Suc j)) cr ep b src ms = Some (res, b)"
    and e: "getPieceColor p = c \<longrightarrow> res = ms"
    by auto
  from Cons.prems [of m] have "isValidSquare (fst m) (snd m)" "m \<noteq> src" by simp_all
  with w k p obtain x where x: "wouldBeInCheck (Suc (Suc j)) cr ep b src m = Some (x, b)"
    and nx: "getPieceColor p = c \<longrightarrow> \<not> x"
    using wouldBeInCheck_total [of b c src p m j cr ep] by blast
  from f e x nx show ?case by simp
qed

lemma getKingMoves_total:
  assumes "kingless c b" and "cell b (row, col) = Some p"
  shows "getKingMoves (Suc (Suc j)) b cr ep row col \<noteq> None"
proof -
  let ?att = "\<lambda>r c d. isSquareUnderAttack (Suc (Suc j)) b cr ep (Some r) (Some c) d"
  have "?att r' c' (getPieceColor p) \<noteq> None" for r' c'
    using assms(1) by (rule isSquareUnderAttack_total)
  with assms(2) have "getKingMovesWith ?att b cr row col \<noteq> None"
    by (rule getKingMovesWith_total [of b row col p ?att cr])
  then show ?thesis unfolding getKingMoves_def .
qed

lemma getRawMoves_other:
  assumes "cell b (row, col) = Some p" and "snd p \<noteq> King"
  shows "getRawMoves j b cr ep row col =
     Some (case snd p of
             Pawn \<Rightarrow> getPawnMoves b ep row col
           | Knight \<Rightarrow> getKnightMoves b row col
           | Bishop \<Rightarrow> getBishopMoves b row col
           | Rook \<Rightarrow> getRookMoves b row col
           | Queen \<Rightarrow> getQueenMoves b row col
           | King \<Rightarrow> [])"
  using assms by (cases "snd p") (simp_all add: getRawMoves_def getRawMovesWith_def)

lemma getValidMovesForPiece_total:
  assumes w: "wfBoard b" and k: "kingless c b"
  shows "\<exists>res. getValidMovesForPiece (Suc (Suc j)) cr ep b row col = Some (res, b) \<and>
      (\<forall>p. cell b (row, col) = Some p \<and> getPieceColor p = c \<longrightarrow>
           getRawMoves (Suc (Suc j)) b cr ep row col = Some res)"
proof (cases "cell b (row, col)")
  case None
  then show ?thesis by (simp add: getValidMovesForPiece_def)
next
  case (Some p)
  let ?gen = "(case snd p of
                   Pawn \<Rightarrow> Some (getPawnMoves b ep row col)
                 | Knight \<Rightarrow> Some (getKnightMoves b row col)
                 | Bishop \<Rightarrow> Some (getBishopMoves b row col)
                 | Rook \<Rightarrow> Some (getRookMoves b row col)
                 | Queen \<Rightarrow> Some (getQueenMoves b row col)
                 | King \<Rightarrow> getKingMoves (Suc (Suc j)) b cr ep row col)"
  have "?gen \<noteq> None"
    using getKingMoves_total [OF k Some, of j cr ep] by (cases "snd p") simp_all
  then obtain ms where g: "?gen = Some ms" by auto
  have good: "isValidSquare (fst m) (snd m) \<and> m \<noteq> (row, col)" if "m \<in> set ms" for m
  proof (cases "snd p")
    case Pawn
    with g that Some show ?thesis by (auto dest: getPawnMoves_good)
  next
    case Knight
    with g that Some show ?thesis by (auto simp: getKnightMoves_def dest: stepMoves_good)
  next
    case Bishop
    with g that Some show ?thesis by (auto simp: getBishopMoves_def dest: getSlidingMoves_good)
  next
    case Rook
    with g that Some show ?thesis by (auto simp: getRookMoves_def dest: getSlidingMoves_good)
  next
    case Queen
    with g that Some show ?thesis by (auto simp: getQueenMoves_def dest: getSlidingMoves_good)
  next
    case King
    with g have "getKingMovesWith (\<lambda>r c d. isSquareUnderAttack (Suc (Suc j)) b cr ep (Some r) (Some c) d)
        b cr row col = Some ms"
      by (simp add: getKingMoves_def)
    with w Some show ?thesis using that by (rule getKingMovesWith_good)
  qed
  from w k Some good obtain res
    where f: "filterLegal (Suc (Suc j)) cr ep b (row, col) ms = Some (res, b)"
      and e: "getPieceColor p = c \<longrightarrow> res = ms"
    using filterLegal_total [of b c "(row, col)" p ms j cr ep] by blast
  have v: "getValidMovesForPiece (Suc (Suc j)) cr ep b row col = Some (res, b)"
    using Some g f by (simp add: getValidMovesForPiece_def)
  have "getRawMoves (Suc (Suc j)) b cr ep row col = Some res" if c: "getPieceColor p = c"
  proof -
    from w k have "cell b (row, col) \<noteq> Some (c, King)" by (rule kingless_all)
    with Some c have nk: "snd p \<noteq> King" by (cases p) (auto simp: getPieceColor_def)
    from e c have "res = ms" by simp
    with g nk getRawMoves_other [OF Some nk, of "Suc (Suc j)" cr ep] show ?thesis
      by (cases "snd p") simp_all
  qed
  with v Some show ?thesis by simp
qed

lemma allValidLoop_total:
  assumes w: "wfBoard b" and k: "kingless c b"
  shows "\<exists>res. allValidLoop (Suc (Suc j)) cr ep b d ss = Some (res, b) \<and>
               (\<forall>m \<in> set res. cell b (fst m) \<noteq> None)"
proof (induction ss)
  case Nil
  then show ?case by simp
next
  case (Cons s ss)
  then obtain rest where r: "allValidLoop (Suc (Suc j)) cr ep b d ss = Some (rest, b)"
    and n: "\<forall>m \<in> set rest. cell b (fst m) \<noteq> None"
    by blast
  from w k obtain pm where v: "getValidMovesForPiece (Suc (Suc j)) cr ep b (fst s) (snd s) = Some (pm, b)"
    using getValidMovesForPiece_total [of b c j cr ep "fst s" "snd s"] by blast
  show ?case
  proof (cases "cell b s")
    case None
    with r n show ?thesis by simp
  next
    case (Some p)
    with r n v show ?thesis by auto
  qed
qed

lemma getAllValidMoves_total:
  assumes "wfBoard b" and "kingless c b"
  shows "\<exists>res. getAllValidMoves (Suc (Suc j)) cr ep b d = Some (res, b) \<and>
               (\<forall>m \<in> set res. cell b (fst m) \<noteq> None)"
  unfolding getAllValidMoves_def using assms by (rule allValidLoop_total)

lemma sameGame_kingless: "sameGame w w' \<Longrightarrow> kinglessPosition c w \<Longrightarrow> kinglessPosition c w'"
  by (simp add: sameGame_def kinglessPosition_def)

lemma makeStep_kingless: "kinglessPosition c w \<Longrightarrow> kinglessPosition c (makeStep m w)"
  by (simp add: kinglessPosition_def makeStep_def Let_def wfBoard_setCell kingless_move)

lemma workerMoves_total:
  assumes "stackDepth r = Suc (Suc j)" and "kinglessPosition c w"
  shows "\<exists>ms. workerMoves r d w = Some (ms, w) \<and> (\<forall>m \<in> set ms. cell (board w) (fst m) \<noteq> None)"
proof -
  from assms(2) have "wfBoard (board w)" "kingless c (board w)"
    by (simp_all add: kinglessPosition_def)
  then obtain ms where
    "getAllValidMoves (Suc (Suc j)) (castlingRights w) (enPassantTarget w) (board w) d = Some (ms, board w)"
    "\<forall>m \<in> set ms. cell (board w) (fst m) \<noteq> None"
    using getAllValidMoves_total [of "board w" c j "castlingRights w" "enPassantTarget w" d] by blast
  with assms(1) show ?thesis by (simp add: workerMoves_def)
qed

lemma workerInCheck_total:
  assumes "stackDepth r = Suc (Suc j)" and "kinglessPosition c w"
  shows "workerInCheck r d w \<noteq> None"
  using assms isInCheck_total [of c "board w" j "castlingRights w" "enPassantTarget w" d]
  by (simp add: workerInCheck_def kinglessPosition_def)

lemma evaluateMobility_total:
  assumes s: "stackDepth r = Suc (Suc j)" and k: "kinglessPosition c w"
  shows "evaluateMobility r w \<noteq> None"
proof -
  from s k obtain ms where m: "workerMoves r (aiColor w) w = Some (ms, w)"
    using workerMoves_total [of r j c w "aiColor w"] by blast
  let ?w2 = "w\<lparr>currentTurn := opponent (aiColor w)\<rparr>"
  from k have "kinglessPosition c ?w2" by (simp add: kinglessPosition_def)
  with s obtain ms2 where m2: "workerMoves r (opponent (aiColor w)) ?w2 = Some (ms2, ?w2)"
    using workerMoves_total [of r j c ?w2 "opponent (aiColor w)"] by blast
  from m m2 show ?thesis by (simp add: evaluateMobility_def Let_def)
qed

lemma evaluatePosition_total:
  assumes "stackDepth r = Suc (Suc j)" and "kinglessPosition c w"
  shows "\<exists>v. evaluatePosition r w = Some (v, w)"
proof -
  from assms have "evaluateMobility r w \<noteq> None" by (rule evaluateMobility_total)
  then have "evaluatePosition r w \<noteq> None"
    by (auto simp: evaluatePosition_def Let_def)
  then obtain v w' where e: "evaluatePosition r w = Some (v, w')" by auto
  then have "w' = w" by (rule evaluatePosition_same)
  with e show ?thesis by simp
qed

lemma allSome_total: "(\<And>x. x \<in> set xs \<Longrightarrow> x \<noteq> None) \<Longrightarrow> allSome xs \<noteq> None"
proof (induction xs)
  case Nil
  then show ?case by simp
next
  case (Cons x xs)
  then obtain y where "x = Some y" by (cases x) auto
  with Cons show ?case by auto
qed

lemma orderMoves_total:
  assumes "\<forall>m \<in> set ms. cell (board w) (fst m) \<noteq> None"
  shows "orderMoves w ms bm ply \<noteq> None"
proof -
  have "allSome (map (orderScore w bm ply) ms) \<noteq> None"
  proof (rule allSome_total)
    fix x assume "x \<in> set (map (orderScore w bm ply) ms)"
    then obtain m where "m \<in> set ms" "x = orderScore w bm ply m" by auto
    with assms show "x \<noteq> None"
      by (auto simp: orderScore_def Let_def split: option.splits)
  qed
  then show ?thesis by (auto simp: orderMoves_def)
qed

lemma tacticalFilter_total:
  assumes s: "stackDepth r = Suc (Suc j)" and k: "kinglessPosition c w"
  shows "\<exists>res. tacticalFilter r d ms w = Some (res, w) \<and> set res \<subseteq> set ms"
proof (induction ms)
  case Nil
  then show ?case by simp
next
  case (Cons m ms)
  then obtain res where t: "tacticalFilter r d ms w = Some (res, w)" and sub: "set res \<subseteq> set ms"
    by blast
  show ?case
  proof (cases "cell (board w) (snd m)")
    case (Some a)
    with t sub show ?thesis by auto
  next
    case None
    from k have "kinglessPosition c (makeStep m w)" by (rule makeStep_kingless)
    with s obtain g where g: "workerInCheck r (opponent d) (makeStep m w) = Some g"
      using workerInCheck_total [of r j c "makeStep m w" "opponent d"] by auto
    from None have u: "unmakeStep m (cell (board w) (fst m)) None (makeStep m w) = w"
      by (rule unmake_make_None)
    from None g u t sub show ?thesis by (auto simp: Let_def)
  qed
qed

lemma quiescenceLoop_total:
  assumes qs: "\<And>a b im w. kinglessPosition c w \<Longrightarrow>
                 quiescenceSearch r a b im (Suc qdepth) w \<noteq> None"
  shows "kinglessPosition c w0 \<Longrightarrow> quiescenceLoop r isMaximizing qdepth ms alpha beta w0 \<noteq> None"
proof (induction ms arbitrary: alpha beta w0 isMaximizing)
  case Nil
  then show ?case by (simp add: quiescenceLoop.simps)
next
  case (Cons m rest)
  obtain stop w where t: "timeUp r w0 = (stop, w)" by (cases "timeUp r w0")
  then have "sameGame w0 w" by (rule timeUp_sameGame)
  then have k: "kinglessPosition c w" using Cons.prems by (rule sameGame_kingless)
  show ?case
  proof (cases stop)
    case True
    with t show ?thesis by (simp add: quiescenceLoop.simps)
  next
    case False
    from k have "kinglessPosition c (makeStep m w)" by (rule makeStep_kingless)
    then obtain score w4
      where q: "quiescenceSearch r alpha beta (\<not> isMaximizing) (Suc qdepth) (makeStep m w) = Some (score, w4)"
      using qs [of "makeStep m w" alpha beta "\<not> isMaximizing"] by auto
    let ?w6 = "unmakeStep m (cell (board w) (fst m)) (cell (board w) (snd m)) w4"
    from q have "sameGame (makeStep m w) w4" by (rule quiescenceSearch_sameGame)
    then have "sameGame w ?w6" by (rule unmake_make_sameGame)
    then have k6: "kinglessPosition c ?w6" using k by (rule sameGame_kingless)
    have ih: "quiescenceLoop r im qdepth rest a b ?w6 \<noteq> None" for a b im
      using k6 by (rule Cons.IH)
    from t False q ih show ?thesis
      by (simp add: quiescenceLoop.simps Let_def)
  qed
qed

lemma quiescenceSearch_total_aux:
  assumes s: "stackDepth r = Suc (Suc j)"
  shows "5 - qdepth \<le> n \<Longrightarrow> kinglessPosition c w0 \<Longrightarrow>
         quiescenceSearch r alpha beta isMaximizing qdepth w0 \<noteq> None"
proof (induction n arbitrary: qdepth alpha beta isMaximizing w0)
  case 0
  then have "qdepth > 4" by simp
  moreover from s "0.prems"(2) obtain v where "evaluatePosition r w0 = Some (v, w0)"
    using evaluatePosition_total by blast
  ultimately show ?case by (simp add: quiescenceSearch.simps)
next
  case (Suc n)
  show ?case
  proof (cases "qdepth > 4")
    case True
    moreover from s Suc.prems(2) obtain v where "evaluatePosition r w0 = Some (v, w0)"
      using evaluatePosition_total by blast
    ultimately show ?thesis by (simp add: quiescenceSearch.simps)
  next
    case False
    obtain stop w where t: "timeUp r w0 = (stop, w)" by (cases "timeUp r w0")
    then have "sameGame w0 w" by (rule timeUp_sameGame)
    then have k: "kinglessPosition c w" using Suc.prems(2) by (rule sameGame_kingless)
    from s k obtain v where e: "evaluatePosition r w = Some (v, w)"
      using evaluatePosition_total by blast
    from s k obtain allMoves where m: "workerMoves r (sideToSearch w isMaximizing) w = Some (allMoves, w)"
      and src: "\<forall>m \<in> set allMoves. cell (board w) (fst m) \<noteq> None"
      using workerMoves_total [of r j c w "sideToSearch w isMaximizing"] by blast
    from s k obtain tactical
      where f: "tacticalFilter r (sideToSearch w isMaximizing) allMoves w = Some (tactical, w)"
        and sub: "set tactical \<subseteq> set allMoves"
      using tacticalFilter_total [of r j c w "sideToSearch w isMaximizing" allMoves] by blast
    from src sub have "\<forall>m \<in> set tactical. cell (board w) (fst m) \<noteq> None" by blast
    then obtain ordered where o: "orderMoves w tactical None 0 = Some ordered"
      using orderMoves_total [of tactical w None 0] by auto
    have loop: "quiescenceLoop r im qdepth ms a b w \<noteq> None" for ms a b im
    proof (rule quiescenceLoop_total [OF _ k])
      fix a' b' im w1
      assume "kinglessPosition c w1"
      moreover from Suc.prems(1) False have "5 - Suc qdepth \<le> n" by simp
      ultimately show "quiescenceSearch r a' b' im (Suc qdepth) w1 \<noteq> None"
        by (rule Suc.IH [rotated])
    qed
    from False t e m f o loop show ?thesis
      by (simp add: quiescenceSearch.simps Let_def)
  qed
qed

lemma quiescenceSearch_total:
  assumes "stackDepth r = Suc (Suc j)" and "kinglessPosition c w0"
  shows "quiescenceSearch r alpha beta isMaximizing qdepth w0 \<noteq> None"
  using assms(1) le_refl assms(2) by (rule quiescenceSearch_total_aux)

lemma searchLoop_total:
  assumes ab: "\<And>a b im p w. kinglessPosition c w \<Longrightarrow>
                 alphaBetaSearch r childDepth a b im p w \<noteq> None"
  shows "kinglessPosition c w0 \<Longrightarrow>
         searchLoop r childDepth isMaximizing ply ms alpha beta best bm w0 \<noteq> None"
proof (induction ms arbitrary: alpha beta best bm w0 isMaximizing)
  case Nil
  then show ?case by (simp add: searchLoop.simps)
next
  case (Cons m rest)
  obtain stop w where t: "timeUp r w0 = (stop, w)" by (cases "timeUp r w0")
  then have "sameGame w0 w" by (rule timeUp_sameGame)
  then have k: "kinglessPosition c w" using Cons.prems by (rule sameGame_kingless)
  show ?case
  proof (cases stop)
    case True
    with t show ?thesis by (simp add: searchLoop.simps)
  next
    case False
    from k have "kinglessPosition c (makeStep m w)" by (rule makeStep_kingless)
    then obtain evaluation w4
      where q: "alphaBetaSearch r childDepth alpha beta (\<not> isMaximizing) (Suc ply) (makeStep m w) =
                  Some (evaluation, w4)"
      using ab [of "makeStep m w" alpha beta "\<not> isMaximizing" "Suc ply"] by auto
    let ?w6 = "unmakeStep m (cell (board w) (fst m)) (cell (board w) (snd m)) w4"
    from q have "sameGame (makeStep m w) w4" by (rule alphaBetaSearch_sameGame)
    then have "sameGame w ?w6" by (rule unmake_make_sameGame)
    then have k6: "kinglessPosition c ?w6" using k by (rule sameGame_kingless)
    have ih: "searchLoop r childDepth im ply rest a b best' bm' ?w6 \<noteq> None" for a b best' bm' im
      using k6 by (rule Cons.IH)
    from t False q ih show ?thesis
      by (simp add: searchLoop.simps Let_def)
  qed
qed

lemma alphaBetaSearch_total:
  assumes s: "stackDepth r = Suc (Suc j)"
  shows "kinglessPosition c w0 \<Longrightarrow> alphaBetaSearch r depth alpha beta isMaximizing ply w0 \<noteq> None"
proof (induction depth arbitrary: alpha beta isMaximizing ply w0)
  case 0
  let ?w1 = "w0\<lparr>nodesSearched := nodesSearched w0 + 1\<rparr>"
  obtain stop w where t: "timeUp r ?w1 = (stop, w)" by (cases "timeUp r ?w1")
  then have "sameGame ?w1 w" by (rule timeUp_sameGame)
  moreover from "0.prems" have "kinglessPosition c ?w1" by (simp add: kinglessPosition_def)
  ultimately have k: "kinglessPosition c w" by (rule sameGame_kingless)
  from s k obtain v where e: "evaluatePosition r w = Some (v, w)"
    using evaluatePosition_total by blast
  from s k have q: "quiescenceSearch r alpha beta im 0 w \<noteq> None" for im
    by (rule quiescenceSearch_total)
  from q [of True] obtain s1 w1 where q1: "quiescenceSearch r alpha beta True 0 w = Some (s1, w1)"
    by auto
  from q [of False] obtain s2 w2 where q2: "quiescenceSearch r alpha beta False 0 w = Some (s2, w2)"
    by auto
  from t e q1 q2 show ?case
    by (auto simp: alphaBetaSearch.simps Let_def split: option.splits)
next
  case (Suc d)
  let ?w1 = "w0\<lparr>nodesSearched := nodesSearched w0 + 1\<rparr>"
  obtain stop w where t: "timeUp r ?w1 = (stop, w)" by (cases "timeUp r ?w1")
  then have "sameGame ?w1 w" by (rule timeUp_sameGame)
  moreover from Suc.prems have "kinglessPosition c ?w1" by (simp add: kinglessPosition_def)
  ultimately have k: "kinglessPosition c w" by (rule sameGame_kingless)
  from s k obtain moves where m: "workerMoves r (sideToSearch w isMaximizing) w = Some (moves, w)"
    and src: "\<forall>m \<in> set moves. cell (board w) (fst m) \<noteq> None"
    using workerMoves_total [of r j c w "sideToSearch w isMaximizing"] by blast
  from s k have ic: "workerInCheck r (sideToSearch w isMaximizing) w \<noteq> None"
    by (rule workerInCheck_total)
  from src have o: "orderMoves w moves bm ply \<noteq> None" for bm
    by (rule orderMoves_total)
  have loop: "searchLoop r d im ply ms a b best bm w \<noteq> None" for ms a b best bm im
    by (rule searchLoop_total [OF _ k]) (rule Suc.IH)
  let ?hint = "case ttGet w (workerFEN w) of None \<Rightarrow> None | Some e \<Rightarrow> entryBestMove e"
  from ic obtain inCheck where ic': "workerInCheck r (sideToSearch w isMaximizing) w = Some inCheck"
    by auto
  from o [of ?hint] obtain om where o': "orderMoves w moves ?hint ply = Some om"
    by auto
  from loop [of isMaximizing om alpha beta "if isMaximizing then NegInf else PosInf" None]
  obtain best bm' w2 where l': "searchLoop r d isMaximizing ply om alpha beta
      (if isMaximizing then NegInf else PosInf) None w = Some (best, bm', w2)"
    by auto
  show ?case
  proof (cases "stop \<or> workerRepetitions w \<ge> 2")
    case True
    with t show ?thesis
      by (auto simp: alphaBetaSearch.simps [of r "Suc d"])
  next
    case False
    show ?thesis
    proof (cases "ttHit (ttGet w (workerFEN w)) (Suc d)")
      case (Some cached)
      with t False show ?thesis
        by (simp add: alphaBetaSearch.simps [of r "Suc d"] Let_def)
    next
      case None
      show ?thesis
      proof (cases "moves = []")
        case True
        with t False None m ic' show ?thesis
          by (simp add: alphaBetaSearch.simps [of r "Suc d"] Let_def
                split del: if_split cong: if_cong)
      next
        case nonempty: False
        with t False None m o' l' show ?thesis
          by (simp add: alphaBetaSearch.simps [of r "Suc d"] Let_def
                split del: if_split cong: if_cong)
      qed
    qed
  qed
qed

lemma rootLoop_total:
  assumes s: "stackDepth r = Suc (Suc j)"
  shows "kinglessPosition c w0 \<Longrightarrow> rootLoop r depth ms dbm dbs scores w0 \<noteq> None"
proof (induction ms arbitrary: dbm dbs scores w0)
  case Nil
  then show ?case by simp
next
  case (Cons m rest)
  obtain stop w where t: "deadlinePassed r w0 = (stop, w)" by (cases "deadlinePassed r w0")
  then have "sameGame w0 w" by (rule deadlinePassed_sameGame)
  then have k: "kinglessPosition c w" using Cons.prems by (rule sameGame_kingless)
  show ?case
  proof (cases "stop \<or> nodesSearched w > maxNodes (settingsOf r)")
    case True
    with t show ?thesis by auto
  next
    case False
    from k have "kinglessPosition c (makeStep m w)" by (rule makeStep_kingless)
    with s obtain v w4
      where q: "alphaBetaSearch r (depth - 1) NegInf PosInf False 0 (makeStep m w) = Some (v, w4)"
      using alphaBetaSearch_total [of r j c "makeStep m w" "depth - 1" NegInf PosInf False 0] by auto
    let ?w6 = "unmakeStep m (cell (board w) (fst m)) (cell (board w) (snd m)) w4"
    from q have "sameGame (makeStep m w) w4" by (rule alphaBetaSearch_sameGame)
    then have "sameGame w ?w6" by (rule unmake_make_sameGame)
    then have k6: "kinglessPosition c ?w6" using k by (rule sameGame_kingless)
    have ih: "rootLoop r depth rest dbm' dbs' scores' ?w6 \<noteq> None" for dbm' dbs' scores'
      using k6 by (rule Cons.IH)
    from t False q ih show ?thesis
      by (simp add: Let_def)
  qed
qed

section \<open>Results about getAISettings\<close>

text \<open>
  C8, as stated: all parameters are the linear interpolation between the anchors at the
  clamped rating.  At rating 500 the interpolated search depth is the low anchor 1, but
  the code's guard \<open>elo <= 500 ? 0 : ...\<close> returns 0.
\<close>

theorem getAISettings_not_all_interpolated:
  "searchDepth (getAISettings 500) = 0 \<and> searchDepth (specSettings (clampElo 500)) = 1 \<and>
   getAISettings 500 \<noteq> specSettings (clampElo 500)"
proof -
  have a: "searchDepth (getAISettings 500) = 0"
    by (simp add: getAISettings_def clampElo_def Let_def)
  have b: "searchDepth (specSettings (clampElo 500)) = 1"
    by (simp add: specSettings_def clampElo_def lerp_def mathRound_def)
  from a b have "searchDepth (getAISettings 500) \<noteq> searchDepth (specSettings (clampElo 500))"
    by simp
  then have "getAISettings 500 \<noteq> specSettings (clampElo 500)"
    by metis
  with a b show ?thesis by simp
qed

text \<open>
  C8, amended: the settings depend on the rating only through its clamped value in
  [500, 2200]; every parameter other than the search depth is the (rounded, for the
  integer ones) linear interpolation between its anchors; the search depth is 0 at clamped
  rating 500 and the rounded interpolation between 1 and 6 above it; quiescence is on
  exactly from clamped rating 1200.
\<close>

theorem getAISettings_clamped_interpolation:
  "500 \<le> clampElo a \<and> clampElo a \<le> 2200 \<and>
   getAISettings a =
     (specSettings (clampElo a))
       \<lparr>searchDepth := (if clampElo a = 500 then 0 else mathRound (lerp (clampElo a) 500 2200 1 6))\<rparr> \<and>
   (if clampElo a = clampElo b then getAISettings a = getAISettings b else True) \<and>
   useQuiescence (getAISettings a) = (clampElo a \<ge> 1200)"
proof -
  have r: "500 \<le> clampElo a" "clampElo a \<le> 2200"
    by (simp_all add: clampElo_def)
  then have e: "(clampElo a \<le> 500) = (clampElo a = 500)"
    by linarith
  have s: "getAISettings a =
     (specSettings (clampElo a))
       \<lparr>searchDepth := (if clampElo a = 500 then 0 else mathRound (lerp (clampElo a) 500 2200 1 6))\<rparr>"
    by (simp add: getAISettings_def specSettings_def Let_def e)
  have d: "clampElo a = clampElo b \<Longrightarrow> getAISettings a = getAISettings b"
    by (simp add: getAISettings_def Let_def)
  have q: "useQuiescence (getAISettings a) = (clampElo a \<ge> 1200)"
    by (simp add: getAISettings_def Let_def)
  from r s d q show ?thesis by simp
qed

theorem getAISettings_clamped_interpolation_witness:
  "clampElo 100 = clampElo 500 \<and> getAISettings 100 = getAISettings 500 \<and>
   searchDepth (getAISettings 1350) = 4 \<and> useQuiescence (getAISettings 1350) \<and>
   \<not> useQuiescence (getAISettings 1199)"
proof -
  have c: "clampElo 100 = clampElo 500"
    by (simp add: clampElo_def)
  have g: "getAISettings 100 = getAISettings 500"
  proof -
    from getAISettings_clamped_interpolation [of 100 500]
    have "if clampElo 100 = clampElo 500 then getAISettings 100 = getAISettings 500 else True"
      by blast
    with c show ?thesis by simp
  qed
  have k: "clampElo 1350 = 1350" "clampElo 1199 = 1199"
    by (simp_all add: clampElo_def)
  from getAISettings_clamped_interpolation [of 1350 1350]
  have s1: "getAISettings 1350 =
     (specSettings (clampElo 1350))
       \<lparr>searchDepth := (if clampElo 1350 = 500 then 0 else mathRound (lerp (clampElo 1350) 500 2200 1 6))\<rparr>"
    and q1: "useQuiescence (getAISettings 1350) = (clampElo 1350 \<ge> 1200)"
    by blast+
  from getAISettings_clamped_interpolation [of 1199 1199]
  have q2: "useQuiescence (getAISettings 1199) = (clampElo 1199 \<ge> 1200)"
    by blast
  have d: "searchDepth (getAISettings 1350) = 4"
    by (simp add: s1 k lerp_def mathRound_def)
  have q: "useQuiescence (getAISettings 1350)" "\<not> useQuiescence (getAISettings 1199)"
    by (simp_all add: q1 q2 k)
  from c g d q show ?thesis by simp
qed

section \<open>Results about make and unmake in the search\<close>



section \<open>Results about repetitions in the search\<close>

lemma count_firstField:
  "length (filter (\<lambda>fen. fen = k) h) \<le> length (filter (\<lambda>fen. firstField fen = firstField k) h)"
  by (induction h) auto

text \<open>
  C4: when the key of the worker's position is in the position history twice or more and
  the timeout test of the call does not fire (no stop request, the clock before the
  deadline, the node count within the budget), \<open>alphaBetaSearch\<close> returns 0 whatever the
  depth, the window and the material; it has counted the node and read the clock once, and
  has done nothing else.
\<close>

theorem repetition_scores_zero:
  assumes "\<not> forceTimeout w"
    and "now r (clockReads w) < deadline r"
    and "nodesSearched w + 1 \<le> maxNodes (settingsOf r)"
    and "2 \<le> length (filter (\<lambda>fen. fen = workerFEN w) (positionHistory w))"
  shows "alphaBetaSearch r depth alpha beta isMaximizing ply w =
           Some (Fin 0, w\<lparr>nodesSearched := nodesSearched w + 1, clockReads := Suc (clockReads w)\<rparr>)"
proof -
  let ?w1 = "w\<lparr>nodesSearched := nodesSearched w + 1\<rparr>"
  let ?w2 = "w\<lparr>nodesSearched := nodesSearched w + 1, clockReads := Suc (clockReads w)\<rparr>"
  from assms(1-3) have t: "timeUp r ?w1 = (False, ?w2)"
    by (simp add: timeUp_def)
  have "workerFEN ?w2 = workerFEN w" by (simp add: workerFEN_def)
  with assms(4) count_firstField [of "workerFEN w" "positionHistory w"]
  have "2 \<le> workerRepetitions ?w2"
    by (simp add: workerRepetitions_def countRepetitions_def workerFEN_def Let_def)
  with t show ?thesis
    by (subst alphaBetaSearch.simps) simp
qed

text \<open>The position with a queen down for the side to move, its key twice in the history.\<close>

theorem repetition_scores_zero_witness:
  "alphaBetaSearch (plainRun 3 0) 3 NegInf PosInf True 0
     ((workerAt queenEnPrise)\<lparr>positionHistory :=
        [''4k3/8/8/8/8/1q6/P7/7K w - -'', ''4k3/8/8/8/8/1q6/P7/7K w - -'']\<rparr>) =
   Some (Fin 0, (workerAt queenEnPrise)\<lparr>positionHistory :=
        [''4k3/8/8/8/8/1q6/P7/7K w - -'', ''4k3/8/8/8/8/1q6/P7/7K w - -''],
        nodesSearched := 1, clockReads := 1\<rparr>) \<and>
   quickEval (workerAt queenEnPrise) = - 800"
proof -
  let ?w = "(workerAt queenEnPrise)\<lparr>positionHistory :=
        [''4k3/8/8/8/8/1q6/P7/7K w - -'', ''4k3/8/8/8/8/1q6/P7/7K w - -'']\<rparr>"
  have k: "workerFEN ?w = ''4k3/8/8/8/8/1q6/P7/7K w - -''"
    by code_simp
  have a: "\<not> forceTimeout ?w" "now (plainRun 3 0) (clockReads ?w) < deadline (plainRun 3 0)"
    "nodesSearched ?w + 1 \<le> maxNodes (settingsOf (plainRun 3 0))"
    by (simp_all add: workerAt_def initialWorker_def plainRun_def plainSettings_def)
  have h: "2 \<le> length (filter (\<lambda>fen. fen = workerFEN ?w) (positionHistory ?w))"
    by (simp add: k)
  have q: "quickEval (workerAt queenEnPrise) = - 800"
    by code_simp
  from repetition_scores_zero [OF a h, of 3 NegInf PosInf True 0] q show ?thesis
    by (simp add: workerAt_def initialWorker_def)
qed

section \<open>Results about a root without legal moves\<close>




section \<open>Results about the root's ranking of a capture\<close>

lemma queenEnPrise_moves:
  "workerMoves (plainRun 1 0) White (workerAt queenEnPrise) =
   Some ([((6,0),(5,0)), ((6,0),(4,0)), ((6,0),(5,1)), ((7,7),(6,6)), ((7,7),(6,7)), ((7,7),(7,6))],
         workerAt queenEnPrise)"
  by code_simp

lemma queenEnPrise_scores:
  "map_option (\<lambda>(bm, bs, cd, ams, w). (bm, bs, cd, ams))
     (deepen (plainRun 1 0) [1]
        [((6,0),(5,0)), ((6,0),(4,0)), ((6,0),(5,1)), ((7,7),(6,6)), ((7,7),(6,7)), ((7,7),(7,6))]
        ((6,0),(5,0)) NegInf 0 [] (workerAt queenEnPrise)) =
   Some (((6,0),(5,0)), Fin 800, 1,
      [(((6,0),(5,0)), Fin 800), (((6,0),(5,1)), Fin (- 100)), (((6,0),(4,0)), Fin 800),
       (((7,7),(6,6)), Fin 800), (((7,7),(6,7)), Fin 800), (((7,7),(7,6)), Fin 800)])"
  by code_simp

text \<open>
  C2: White, the engine, can take the undefended black queen on b3 with the pawn a2
  (the move from (6, 0) to (5, 1)).  At depth 1, with material as the only evaluation term
  and no blunders, the root gives the capture the score \<open>-100\<close> and each of the five
  other moves the score 800, and returns the pawn push from (6, 0) to (5, 0): the root
  negates the value of \<open>alphaBetaSearch\<close>, which already is the value for the engine.
\<close>

theorem root_ranks_queen_capture_last:
  "map_option (\<lambda>(moves, w). moves) (workerMoves (plainRun 1 0) White (workerAt queenEnPrise)) =
     Some [((6,0),(5,0)), ((6,0),(4,0)), ((6,0),(5,1)), ((7,7),(6,6)), ((7,7),(6,7)), ((7,7),(7,6))] \<and>
   cell queenEnPrise (5, 1) = Some (Black, Queen) \<and>
   map_option (\<lambda>(bm, bs, cd, ams, w). ams)
     (deepen (plainRun 1 0) [1]
        [((6,0),(5,0)), ((6,0),(4,0)), ((6,0),(5,1)), ((7,7),(6,6)), ((7,7),(6,7)), ((7,7),(7,6))]
        ((6,0),(5,0)) NegInf 0 [] (workerAt queenEnPrise)) =
     Some [(((6,0),(5,0)), Fin 800), (((6,0),(5,1)), Fin (- 100)), (((6,0),(4,0)), Fin 800),
           (((7,7),(6,6)), Fin 800), (((7,7),(6,7)), Fin 800), (((7,7),(7,6)), Fin 800)] \<and>
   map_option (\<lambda>(res, w). res) (getBestMove (plainRun 1 0) (\<lambda>n. 0) (workerAt queenEnPrise)) =
     Some \<lparr>resultMove = Some ((6,0),(5,0)), resultScore = Fin 800, resultDepth = 1\<rparr>"
proof -
  from queenEnPrise_scores obtain w1 where d:
    "deepen (plainRun 1 0) [1]
        [((6,0),(5,0)), ((6,0),(4,0)), ((6,0),(5,1)), ((7,7),(6,6)), ((7,7),(6,7)), ((7,7),(7,6))]
        ((6,0),(5,0)) NegInf 0 [] (workerAt queenEnPrise) =
     Some (((6,0),(5,0)), Fin 800, 1,
       [(((6,0),(5,0)), Fin 800), (((6,0),(5,1)), Fin (- 100)), (((6,0),(4,0)), Fin 800),
        (((7,7),(6,6)), Fin 800), (((7,7),(6,7)), Fin 800), (((7,7),(7,6)), Fin 800)], w1)"
    by (auto split: prod.splits)
  have s: "searchDepth (settingsOf (plainRun 1 0)) = 1" "mistakeRate (settingsOf (plainRun 1 0)) = 0"
     "softmaxWindow (settingsOf (plainRun 1 0)) = 50" "temperature (settingsOf (plainRun 1 0)) = 10"
    by (simp_all add: plainRun_def plainSettings_def)
  have a: "aiColor (workerAt queenEnPrise) = White"
    by (simp add: workerAt_def initialWorker_def)
  have l: "[1..<Suc (nat (searchDepth (settingsOf (plainRun 1 0))))] = [1]"
    by (simp add: s)
  have q: "cell queenEnPrise (5, 1) = Some (Black, Queen)"
    by code_simp
  have g: "map_option (\<lambda>(res, w). res) (getBestMove (plainRun 1 0) (\<lambda>n. 0) (workerAt queenEnPrise)) =
     Some \<lparr>resultMove = Some ((6,0),(5,0)), resultScore = Fin 800, resultDepth = 1\<rparr>"
    apply (simp only: getBestMove_def a queenEnPrise_moves l d option.case prod.case list.case)
    apply (simp add: s maybeBlunder_def drawRandom_def selectMoveWithSoftmax_def Let_def)
    done
  have m: "map_option (\<lambda>(moves, w). moves) (workerMoves (plainRun 1 0) White (workerAt queenEnPrise)) =
     Some [((6,0),(5,0)), ((6,0),(4,0)), ((6,0),(5,1)), ((7,7),(6,6)), ((7,7),(6,7)), ((7,7),(7,6))]"
    by (simp only: queenEnPrise_moves option.map prod.case)
  have e: "map_option (\<lambda>(bm, bs, cd, ams, w). ams)
     (deepen (plainRun 1 0) [1]
        [((6,0),(5,0)), ((6,0),(4,0)), ((6,0),(5,1)), ((7,7),(6,6)), ((7,7),(6,7)), ((7,7),(7,6))]
        ((6,0),(5,0)) NegInf 0 [] (workerAt queenEnPrise)) =
     Some [(((6,0),(5,0)), Fin 800), (((6,0),(5,1)), Fin (- 100)), (((6,0),(4,0)), Fin 800),
           (((7,7),(6,6)), Fin 800), (((7,7),(6,7)), Fin 800), (((7,7),(7,6)), Fin 800)]"
    by (simp only: d option.map prod.case)
  from m q e g show ?thesis
    by blast
qed

section \<open>Results about special moves\<close>

text \<open>
  C7, as stated: every application of a move, the search's make step included, moves the
  rook with a king that moves two files, removes the pawn captured en passant and replaces
  a pawn on the last rank by a queen.  The search generates the castling move, the
  en-passant capture and the move of a pawn to the last rank, and its make step moves the
  one piece: the rook stays in the corner, the captured pawn stays on its square, the pawn
  stays a pawn.
\<close>

theorem search_make_step_moves_one_piece:
  "map_option (\<lambda>(moves, w). ((7, 4), (7, 6)) \<in> set moves)
     (workerMoves (plainRun 1 0) White castleWorker) = Some True \<and>
   map_option (\<lambda>(moves, w). ((6, 0), (7, 0)) \<in> set moves)
     (workerMoves (plainRun 1 0) Black castleWorker) = Some True \<and>
   map_option (\<lambda>(moves, w). ((3, 4), (2, 3)) \<in> set moves)
     (workerMoves (plainRun 1 0) White enPassantWorker) = Some True \<and>
   cell (board (makeStep ((7, 4), (7, 6)) castleWorker)) (7, 6) = Some (White, King) \<and>
   cell (board (makeStep ((7, 4), (7, 6)) castleWorker)) (7, 7) = Some (White, Rook) \<and>
   cell (board (makeStep ((7, 4), (7, 6)) castleWorker)) (7, 5) = None \<and>
   cell (board (makeStep ((6, 0), (7, 0)) castleWorker)) (7, 0) = Some (Black, Pawn) \<and>
   cell (board (makeStep ((3, 4), (2, 3)) enPassantWorker)) (2, 3) = Some (White, Pawn) \<and>
   cell (board (makeStep ((3, 4), (2, 3)) enPassantWorker)) (3, 3) = Some (Black, Pawn)"
  by code_simp

text \<open>
  \<open>makeMove\<close> itself moves whatever the corner holds: with the castling right still set
  and the corner empty, the king castles alone.  The statement below therefore takes the
  rook in the corner as a hypothesis.
\<close>

lemma makeMove_castles_without_rook:
  "map_option (\<lambda>(moves, b). (7, 6) \<in> set moves)
     (getValidMovesForPiece 2 (gameCastlingRights rooklessGame) (gameEnPassantTarget rooklessGame)
        (gameBoard rooklessGame) 7 4) = Some True \<and>
   map_option (\<lambda>g'. (cell (gameBoard g') (7, 6), cell (gameBoard g') (7, 5), cell (gameBoard g') (7, 7)))
     (makeMove 2 rooklessGame (7, 4) (7, 6)) = Some (Some (White, King), None, None)"
  by code_simp

text \<open>
  C7, amended.  When \<open>makeMove\<close> of chess.js applies a move on a board of eight rows of
  eight cells and returns: a king that moves two files, with the rook of its colour in the
  corner of that side, ends on its destination, the rook stands on the square the king
  passed over and the corner is empty (unless the king itself has landed on it); a pawn
  that moves onto the en-passant target leaves the square behind the target empty (the
  square of the pawn it captures); a pawn that reaches row 0 or row 7 is replaced by a
  queen of the mover's colour.  The make step of the worker's search reconstructs none of
  this for any move: it leaves the castling rights and the en-passant target as they are
  and every cell other than the move's origin and destination as it is, the destination
  holds what the origin held (a pawn stays a pawn) and the origin is empty.
\<close>

theorem makeMove_special_moves:
  "(makeMove k g src dst = Some g' \<and> cell (gameBoard g) src = Some piece \<and> wfBoard (gameBoard g) \<longrightarrow>
      (snd piece = King \<and> \<bar>snd dst - snd src\<bar> = 2 \<and>
       cell (gameBoard g) (fst dst, if snd dst > snd src then 7 else 0) =
         Some (getPieceColor piece, Rook) \<longrightarrow>
         cell (gameBoard g') dst = Some piece \<and>
         cell (gameBoard g') (fst dst, if snd dst > snd src then snd dst - 1 else snd dst + 1) =
           Some (getPieceColor piece, Rook) \<and>
         (snd dst \<noteq> (if snd dst > snd src then 7 else 0) \<longrightarrow>
            cell (gameBoard g') (fst dst, if snd dst > snd src then 7 else 0) = None)) \<and>
      (snd piece = Pawn \<and> gameEnPassantTarget g = Some dst \<longrightarrow>
         cell (gameBoard g')
           (if gameTurn g = White then fst dst + 1 else fst dst - 1, snd dst) = None) \<and>
      (snd piece = Pawn \<and> (fst dst = 0 \<or> fst dst = 7) \<longrightarrow>
         cell (gameBoard g') dst = Some (gameTurn g, Queen))) \<and>
   castlingRights (makeStep m w) = castlingRights w \<and>
   enPassantTarget (makeStep m w) = enPassantTarget w \<and>
   (t \<noteq> fst m \<and> t \<noteq> snd m \<longrightarrow> cell (board (makeStep m w)) t = cell (board w) t) \<and>
   (wfBoard (board w) \<and> isValidSquare (fst (snd m)) (snd (snd m)) \<and> snd m \<noteq> fst m \<longrightarrow>
      cell (board (makeStep m w)) (snd m) = cell (board w) (fst m)) \<and>
   cell (board (makeStep m w)) (fst m) = None"
proof -
  have game: "(snd piece = King \<and> \<bar>snd dst - snd src\<bar> = 2 \<and>
       cell (gameBoard g) (fst dst, if snd dst > snd src then 7 else 0) =
         Some (getPieceColor piece, Rook) \<longrightarrow>
         cell (gameBoard g') dst = Some piece \<and>
         cell (gameBoard g') (fst dst, if snd dst > snd src then snd dst - 1 else snd dst + 1) =
           Some (getPieceColor piece, Rook) \<and>
         (snd dst \<noteq> (if snd dst > snd src then 7 else 0) \<longrightarrow>
            cell (gameBoard g') (fst dst, if snd dst > snd src then 7 else 0) = None)) \<and>
      (snd piece = Pawn \<and> gameEnPassantTarget g = Some dst \<longrightarrow>
         cell (gameBoard g')
           (if gameTurn g = White then fst dst + 1 else fst dst - 1, snd dst) = None) \<and>
      (snd piece = Pawn \<and> (fst dst = 0 \<or> fst dst = 7) \<longrightarrow>
         cell (gameBoard g') dst = Some (gameTurn g, Queen))"
    if mk: "makeMove k g src dst = Some g'" and pc: "cell (gameBoard g) src = Some piece"
      and w: "wfBoard (gameBoard g)"
  proof -
    obtain sr sc where src: "src = (sr, sc)" by (cases src)
    obtain dr dc where dst: "dst = (dr, dc)" by (cases dst)
    from mk have v: "isValidSquare sr sc" "isValidSquare dr dc"
      by (auto simp: makeMove_def src dst split: if_splits)
    from mk pc have ep: "gameEnPassantTarget g = Some dst \<and> snd piece = Pawn \<longrightarrow>
        isValidSquare (if gameTurn g = White then dr + 1 else dr - 1) dc"
      by (auto simp: makeMove_def Let_def dst split: if_splits)
    have b: "gameBoard g' = boardAfterMove g piece src dst"
      using mk pc by (rule makeMove_board)
    have king: "cell (gameBoard g') dst = Some piece \<and>
         cell (gameBoard g') (fst dst, if snd dst > snd src then snd dst - 1 else snd dst + 1) =
           Some (getPieceColor piece, Rook) \<and>
         (snd dst \<noteq> (if snd dst > snd src then 7 else 0) \<longrightarrow>
            cell (gameBoard g') (fst dst, if snd dst > snd src then 7 else 0) = None)"
      if k: "snd piece = King" "\<bar>snd dst - snd src\<bar> = 2"
        and rook: "cell (gameBoard g) (fst dst, if snd dst > snd src then 7 else 0) =
                     Some (getPieceColor piece, Rook)"
    proof (cases "dc > sc")
      case True
      with k have d: "dc = sc + 2" by (simp add: src dst)
      from k True have nb: "gameBoard g' =
          setCell (setCell (setCell (setCell (gameBoard g) (dr, dc - 1) (cell (gameBoard g) (dr, 7)))
            (dr, 7) None) (dr, dc) (Some piece)) (sr, sc) None"
        by (simp add: b boardAfterMove_def Let_def src dst)
      from True rook castle_kingside_cells [OF w v d, of piece] show ?thesis
        by (simp add: nb src dst)
    next
      case False
      with k have d: "sc = dc + 2" by (simp add: src dst)
      from k False have nb: "gameBoard g' =
          setCell (setCell (setCell (setCell (gameBoard g) (dr, dc + 1) (cell (gameBoard g) (dr, 0)))
            (dr, 0) None) (dr, dc) (Some piece)) (sr, sc) None"
        by (simp add: b boardAfterMove_def Let_def src dst)
      from False rook castle_queenside_cells [OF w v d, of piece] show ?thesis
        by (simp add: nb src dst)
    qed
    have pawn: "cell (gameBoard g')
              (if gameTurn g = White then fst dst + 1 else fst dst - 1, snd dst) = None"
      if p: "snd piece = Pawn" "gameEnPassantTarget g = Some dst"
    proof -
      let ?cr = "if gameTurn g = White then dr + 1 else dr - 1"
      from p ep have vc: "isValidSquare ?cr dc" by simp
      have ne: "(?cr, dc) \<noteq> (dr, dc)" by simp
      let ?b3 = "setCell (setCell (setCell (gameBoard g) (?cr, dc) None) (dr, dc) (Some piece)) (sr, sc) None"
      have c3: "cell ?b3 (?cr, dc) = None"
        using vc ne by (simp add: cell_setCell_wf wfBoard_setCell w del: if_split cong: if_cong)
      from p have "gameBoard g' = ?b3 \<or> gameBoard g' = setCell ?b3 (dr, dc) (Some (gameTurn g, Queen))"
        by (simp add: b boardAfterMove_def Let_def src dst del: if_split cong: if_cong)
      with c3 ne have "cell (gameBoard g') (?cr, dc) = None"
        by (auto simp: cell_setCell_wf wfBoard_setCell w simp del: if_split cong: if_cong)
      then show ?thesis
        by (auto simp: dst split: if_splits)
    qed
    have promo: "snd piece = Pawn \<and> (fst dst = 0 \<or> fst dst = 7) \<longrightarrow>
              cell (gameBoard g') dst = Some (gameTurn g, Queen)"
      using v by (simp add: b boardAfterMove_def Let_def cell_setCell_wf wfBoard_setCell w dst)
    from king pawn promo show ?thesis by blast
  qed
  have rights: "castlingRights (makeStep m w) = castlingRights w"
    "enPassantTarget (makeStep m w) = enPassantTarget w"
    by (simp_all add: makeStep_def Let_def)
  have others: "cell (board (makeStep m w)) t = cell (board w) t" if "t \<noteq> fst m" "t \<noteq> snd m"
    using that by (auto simp: makeStep_def Let_def cell_setCell)
  have target: "cell (board (makeStep m w)) (snd m) = cell (board w) (fst m)"
    if "wfBoard (board w)" "isValidSquare (fst (snd m)) (snd (snd m))" "snd m \<noteq> fst m"
    using that by (simp add: makeStep_def Let_def cell_setCell_wf wfBoard_setCell)
  have origin: "cell (board (makeStep m w)) (fst m) = None"
    by (simp add: makeStep_def Let_def cell_setCell)
  from game rights others target origin show ?thesis by blast
qed

text \<open>White castles kingside, White captures en passant, Black promotes; and the make
  step of the search for the same castling move.\<close>

theorem makeMove_special_moves_witness:
  "(\<exists>g'. makeMove 2 castleGame (7, 4) (7, 6) = Some g' \<and>
         cell (gameBoard g') (7, 6) = Some (White, King) \<and>
         cell (gameBoard g') (7, 5) = Some (White, Rook) \<and>
         cell (gameBoard g') (7, 7) = None) \<and>
   (\<exists>g'. makeMove 2 enPassantGame (3, 4) (2, 3) = Some g' \<and> cell (gameBoard g') (3, 3) = None) \<and>
   (\<exists>g'. makeMove 2 promotionGame (6, 0) (7, 0) = Some g' \<and>
         cell (gameBoard g') (7, 0) = Some (Black, Queen)) \<and>
   cell (board (makeStep ((7, 4), (7, 6)) castleWorker)) (7, 7) = cell castlePosition (7, 7) \<and>
   cell (board (makeStep ((7, 4), (7, 6)) castleWorker)) (7, 6) = cell castlePosition (7, 4)"
proof -
  have 1: "\<exists>g'. makeMove 2 castleGame (7, 4) (7, 6) = Some g' \<and>
         cell (gameBoard g') (7, 6) = Some (White, King) \<and>
         cell (gameBoard g') (7, 5) = Some (White, Rook) \<and>
         cell (gameBoard g') (7, 7) = None"
  proof -
    have "makeMove 2 castleGame (7, 4) (7, 6) \<noteq> None"
      by code_simp
    then obtain g' where m: "makeMove 2 castleGame (7, 4) (7, 6) = Some g'"
      by blast
    have c: "cell (gameBoard castleGame) (7, 4) = Some (White, King)"
      "cell (gameBoard castleGame) (7, 7) = Some (White, Rook)"
      by code_simp+
    have w: "wfBoard (gameBoard castleGame)"
      by code_simp
    from makeMove_special_moves [where k = 2 and g = castleGame and src = "(7, 4)"
        and dst = "(7, 6)" and g' = g' and piece = "(White, King)"] m c w
    have "cell (gameBoard g') (7, 6) = Some (White, King) \<and>
          cell (gameBoard g') (7, 5) = Some (White, Rook) \<and>
          cell (gameBoard g') (7, 7) = None"
      by (simp add: getPieceColor_def)
    with m show ?thesis by blast
  qed
  have 2: "\<exists>g'. makeMove 2 enPassantGame (3, 4) (2, 3) = Some g' \<and> cell (gameBoard g') (3, 3) = None"
  proof -
    have "makeMove 2 enPassantGame (3, 4) (2, 3) \<noteq> None"
      by code_simp
    then obtain g' where m: "makeMove 2 enPassantGame (3, 4) (2, 3) = Some g'"
      by blast
    have c: "cell (gameBoard enPassantGame) (3, 4) = Some (White, Pawn)"
      by code_simp
    have w: "wfBoard (gameBoard enPassantGame)"
      by code_simp
    have e: "gameEnPassantTarget enPassantGame = Some (2, 3)" "gameTurn enPassantGame = White"
      by (simp_all add: enPassantGame_def)
    from makeMove_special_moves [where k = 2 and g = enPassantGame and src = "(3, 4)"
        and dst = "(2, 3)" and g' = g' and piece = "(White, Pawn)"] m c w e
    have "cell (gameBoard g') (3, 3) = None"
      by simp
    with m show ?thesis by blast
  qed
  have 3: "\<exists>g'. makeMove 2 promotionGame (6, 0) (7, 0) = Some g' \<and>
         cell (gameBoard g') (7, 0) = Some (Black, Queen)"
  proof -
    have "makeMove 2 promotionGame (6, 0) (7, 0) \<noteq> None"
      by code_simp
    then obtain g' where m: "makeMove 2 promotionGame (6, 0) (7, 0) = Some g'"
      by blast
    have c: "cell (gameBoard promotionGame) (6, 0) = Some (Black, Pawn)"
      by code_simp
    have w: "wfBoard (gameBoard promotionGame)"
      by code_simp
    have e: "gameTurn promotionGame = Black"
      by (simp add: promotionGame_def)
    from makeMove_special_moves [where k = 2 and g = promotionGame and src = "(6, 0)"
        and dst = "(7, 0)" and g' = g' and piece = "(Black, Pawn)"] m c w e
    have "cell (gameBoard g') (7, 0) = Some (Black, Queen)"
      by simp
    with m show ?thesis by blast
  qed
  have b: "board castleWorker = castlePosition"
    by (simp add: castleWorker_def)
  have wb: "wfBoard (board castleWorker)"
    by code_simp
  from makeMove_special_moves [where m = "((7, 4), (7, 6))" and w = castleWorker and t = "(7, 7)"]
  have 4: "cell (board (makeStep ((7, 4), (7, 6)) castleWorker)) (7, 7) = cell castlePosition (7, 7)"
    by (simp add: b)
  from makeMove_special_moves [where m = "((7, 4), (7, 6))" and w = castleWorker] wb
  have 5: "cell (board (makeStep ((7, 4), (7, 6)) castleWorker)) (7, 6) = cell castlePosition (7, 4)"
    by (simp add: b isValidSquare_def)
  from 1 2 3 4 5 show ?thesis by blast
qed

section \<open>Results about a side without a king\<close>

text \<open>
  C10: on a board (eight rows of eight cells) without a king of colour \<open>c\<close>, with room
  for two nested calls of \<open>isSquareUnderAttack\<close> on the call stack, \<open>isInCheck\<close> for \<open>c\<close>
  returns false; \<open>wouldBeInCheck\<close> answers false for every move of a piece of \<open>c\<close> to
  another square of the board and leaves the board as it was, so that
  \<open>getValidMovesForPiece\<close> returns all the moves of the piece's generator; move
  generation for either colour returns; and \<open>alphaBetaSearch\<close>, \<open>quiescenceSearch\<close> and the
  root's loop over the moves return a result from such a position.
\<close>

theorem kingless_side_never_in_check:
  assumes "wfBoard b" and "kingless c b" and "2 \<le> k"
  shows "isInCheck k b cr ep c = Some False \<and>
    (cell b src = Some p \<and> getPieceColor p = c \<and> isValidSquare (fst dst) (snd dst) \<and> dst \<noteq> src \<longrightarrow>
       wouldBeInCheck k cr ep b src dst = Some (False, b)) \<and>
    (\<exists>res. getValidMovesForPiece k cr ep b row col = Some (res, b) \<and>
       (map_option getPieceColor (cell b (row, col)) = Some c \<longrightarrow>
          getRawMoves k b cr ep row col = Some res)) \<and>
    (\<exists>res. getAllValidMoves k cr ep b d = Some (res, b)) \<and>
    (board w = b \<and> stackDepth r = k \<longrightarrow>
       alphaBetaSearch r depth alpha beta isMaximizing ply w \<noteq> None \<and>
       quiescenceSearch r alpha beta isMaximizing qdepth w \<noteq> None \<and>
       rootLoop r depth moves dbm dbs scores w \<noteq> None)"
proof -
  from assms(3) obtain j where k: "k = Suc (Suc j)"
    by (metis add_2_eq_Suc le_Suc_ex)
  have 1: "isInCheck k b cr ep c = Some False"
    unfolding k using assms(2) by (rule isInCheck_kingless)
  have 2: "wouldBeInCheck k cr ep b src dst = Some (False, b)"
    if "cell b src = Some p" "getPieceColor p = c" "isValidSquare (fst dst) (snd dst)" "dst \<noteq> src"
    using wouldBeInCheck_total [OF assms(1,2) that(1,3,4), of j cr ep] that(2)
    by (auto simp: k)
  have 3: "\<exists>res. getValidMovesForPiece k cr ep b row col = Some (res, b) \<and>
       (map_option getPieceColor (cell b (row, col)) = Some c \<longrightarrow>
          getRawMoves k b cr ep row col = Some res)"
    using getValidMovesForPiece_total [OF assms(1,2), of j cr ep row col]
    unfolding k by auto
  have 4: "\<exists>res. getAllValidMoves k cr ep b d = Some (res, b)"
    using getAllValidMoves_total [OF assms(1,2), of j cr ep d]
    unfolding k by blast
  have 5: "alphaBetaSearch r depth alpha beta isMaximizing ply w \<noteq> None \<and>
       quiescenceSearch r alpha beta isMaximizing qdepth w \<noteq> None \<and>
       rootLoop r depth moves dbm dbs scores w \<noteq> None"
    if "board w = b" "stackDepth r = k"
  proof -
    from that(1) assms(1,2) have p: "kinglessPosition c w"
      by (simp add: kinglessPosition_def)
    from that(2) have s: "stackDepth r = Suc (Suc j)" by (simp add: k)
    from s p have "alphaBetaSearch r depth alpha beta isMaximizing ply w \<noteq> None"
      by (rule alphaBetaSearch_total)
    moreover from s p have "quiescenceSearch r alpha beta isMaximizing qdepth w \<noteq> None"
      by (rule quiescenceSearch_total)
    moreover from s p have "rootLoop r depth moves dbm dbs scores w \<noteq> None"
      by (rule rootLoop_total)
    ultimately show ?thesis by blast
  qed
  from 1 2 3 4 5 show ?thesis by blast
qed

text \<open>White has no king; Black's castling right makes the attack test recurse once.\<close>

theorem kingless_side_never_in_check_witness:
  "wfBoard whiteKingless \<and> kingless White whiteKingless \<and>
   isInCheck 2 whiteKingless blackKingside None White = Some False \<and>
   wouldBeInCheck 2 blackKingside None whiteKingless (7, 0) (7, 4) = Some (False, whiteKingless) \<and>
   (\<exists>res. getAllValidMoves 2 blackKingside None whiteKingless Black = Some (res, whiteKingless)) \<and>
   alphaBetaSearch (plainRun 2 0) 2 NegInf PosInf True 0 kinglessWorker \<noteq> None"
proof -
  have w: "wfBoard whiteKingless"
    by code_simp
  have k: "kingless White whiteKingless"
    by code_simp
  have c: "cell whiteKingless (7, 0) = Some (White, Rook)"
    by code_simp
  have b: "board kinglessWorker = whiteKingless" "stackDepth (plainRun 2 0) = 2"
    by (simp_all add: kinglessWorker_def initialWorker_def plainRun_def)
  note t = kingless_side_never_in_check [OF w k order_refl,
      of blackKingside None "(7, 0)" "(White, Rook)" "(7, 4)" 0 0 Black kinglessWorker
         "plainRun 2 0" 2 NegInf PosInf True 0 0 "[]" None NegInf "[]"]
  from t have 1: "isInCheck 2 whiteKingless blackKingside None White = Some False"
    by blast
  from t c have 2: "wouldBeInCheck 2 blackKingside None whiteKingless (7, 0) (7, 4) = Some (False, whiteKingless)"
    by (simp add: getPieceColor_def isValidSquare_def)
  from t have 3: "\<exists>res. getAllValidMoves 2 blackKingside None whiteKingless Black = Some (res, whiteKingless)"
    by blast
  from t b have 4: "alphaBetaSearch (plainRun 2 0) 2 NegInf PosInf True 0 kinglessWorker \<noteq> None"
    by blast
  from w k 1 2 3 4 show ?thesis by blast
qed

end
